theory Spec2Isabelle
  imports Main "HOL-Library.List_Lexorder"
begin

section \<open>JavaScript values used by the code\<close>

text \<open>
  A JavaScript number is modelled as an integer or \<open>NaN\<close>. Fractions, infinities and
  the loss of precision above \<open>2^53\<close> are outside the model; \<open>-0\<close> is \<open>0\<close>.
\<close>

datatype number = NaN | Num int

fun minus_num :: "number \<Rightarrow> number \<Rightarrow> number" where
  "minus_num (Num a) (Num b) = Num (a - b)"
| "minus_num _ _ = NaN"

text \<open>\<open>x || 0\<close> on a number: \<open>NaN\<close> and \<open>0\<close> are falsy.\<close>

fun or_zero :: "number \<Rightarrow> int" where
  "or_zero NaN = 0"
| "or_zero (Num n) = n"

text \<open>\<open>x || 0\<close> on an optional number field (\<open>undefined\<close> is falsy too).\<close>

fun opt_or_zero :: "number option \<Rightarrow> int" where
  "opt_or_zero None = 0"
| "opt_or_zero (Some x) = or_zero x"

text \<open>Truthiness of an optional string: \<open>undefined\<close> and \<open>''\<close> are falsy.\<close>

fun truthy_str :: "string option \<Rightarrow> bool" where
  "truthy_str None = False"
| "truthy_str (Some s) = (s \<noteq> [])"

text \<open>\<open>s || d\<close> on an optional string.\<close>

definition str_or :: "string option \<Rightarrow> string \<Rightarrow> string" where
  "str_or s d = (case s of None \<Rightarrow> d | Some t \<Rightarrow> if t = [] then d else t)"

text \<open>\<open>String.prototype.includes\<close>: \<open>t\<close> occurs in \<open>s\<close> as a contiguous substring.\<close>

fun str_includes :: "string \<Rightarrow> string \<Rightarrow> bool" where
  "str_includes [] t = (t = [])"
| "str_includes (c # cs) t = (take (length t) (c # cs) = t \<or> str_includes cs t)"

subsection \<open>parseInt\<close>

text \<open>
  \<open>parseInt(s)\<close> without a radix: leading white space is skipped, then an optional sign,
  then an optional \<open>0x\<close>/\<open>0X\<close> prefix selecting radix 16, then the longest run of digits of
  the radix; no digit gives \<open>NaN\<close>. A \<open>char\<close> is a code unit below 256, and the white
  space that \<open>parseInt\<close> skips is, among these, TAB, LF, VT, FF, CR, SP and the no-break
  space U+00A0; the white space above U+00FF (U+1680, U+2000 to U+200A, U+2028, U+2029,
  U+202F, U+205F, U+3000, U+FEFF) is outside the strings of the model.
\<close>

definition isWhiteSpace :: "char \<Rightarrow> bool" where
  "isWhiteSpace c = (let n = (of_char c :: nat) in
     n = 9 \<or> n = 10 \<or> n = 11 \<or> n = 12 \<or> n = 13 \<or> n = 32 \<or> n = 160)"

definition digitVal :: "char \<Rightarrow> nat option" where
  "digitVal c = (let n = (of_char c :: nat) in
     if 48 \<le> n \<and> n \<le> 57 then Some (n - 48)
     else if 97 \<le> n \<and> n \<le> 122 then Some (n - 87)
     else if 65 \<le> n \<and> n \<le> 90 then Some (n - 55)
     else None)"

definition isDigitOf :: "nat \<Rightarrow> char \<Rightarrow> bool" where
  "isDigitOf R c = (case digitVal c of None \<Rightarrow> False | Some d \<Rightarrow> d < R)"

definition digitsValue :: "nat \<Rightarrow> string \<Rightarrow> int" where
  "digitsValue R z = foldl (\<lambda>acc c. acc * int R + int (case digitVal c of None \<Rightarrow> 0 | Some d \<Rightarrow> d)) 0 z"

definition parseInt :: "string \<Rightarrow> number" where
  "parseInt inputString =
    (let S = dropWhile isWhiteSpace inputString;
         sign = (if S \<noteq> [] \<and> hd S = CHR ''-'' then -1 else (1::int));
         S1 = (if S \<noteq> [] \<and> (hd S = CHR ''+'' \<or> hd S = CHR ''-'') then tl S else S);
         hex = (take 2 S1 = ''0x'' \<or> take 2 S1 = ''0X'');
         R = (if hex then 16 else (10::nat));
         S2 = (if hex then drop 2 S1 else S1);
         Z = takeWhile (isDigitOf R) S2
     in if Z = [] then NaN else Num (sign * digitsValue R Z))"

text \<open>\<open>parseInt\<close> of an optional string: \<open>undefined\<close> is converted to the text
  \<open>undefined\<close>, which has no digit.\<close>

definition parseInt_opt :: "string option \<Rightarrow> number" where
  "parseInt_opt s = (case s of None \<Rightarrow> NaN | Some t \<Rightarrow> parseInt t)"

subsection \<open>Number to string\<close>

fun digits_of_nat :: "nat \<Rightarrow> string" where
  "digits_of_nat n = (if n < 10 then [char_of (48 + n)] else digits_of_nat (n div 10) @ [char_of (48 + n mod 10)])"

definition string_of_int :: "int \<Rightarrow> string" where
  "string_of_int i = (if i < 0 then CHR ''-'' # digits_of_nat (nat (- i)) else digits_of_nat (nat i))"

fun string_of_number :: "number \<Rightarrow> string" where
  "string_of_number NaN = ''NaN''"
| "string_of_number (Num n) = string_of_int n"

subsection \<open>Array.prototype.sort and find\<close>

text \<open>
  \<open>Array.prototype.sort(cmp)\<close> is stable; a comparator result of \<open>NaN\<close> counts as \<open>0\<close>.
  The model is the stable insertion sort: an element moves behind another one only when
  the comparator is positive. For a consistent comparator every stable sort gives this
  list, so this is what the code computes. A comparator that returns \<open>NaN\<close> on some
  pairs and not on others is not consistent: the language then leaves the order to the
  engine, the engine's own sort may give another list than this one, and nothing below
  is stated about the order \<open>js_sort\<close> gives in that case. The comparators of the code
  return \<open>NaN\<close> only when a quality label does not parse.
\<close>

fun positive :: "number \<Rightarrow> bool" where
  "positive NaN = False"
| "positive (Num n) = (0 < n)"

fun js_insert :: "('a \<Rightarrow> 'a \<Rightarrow> number) \<Rightarrow> 'a \<Rightarrow> 'a list \<Rightarrow> 'a list" where
  "js_insert cmp x [] = [x]"
| "js_insert cmp x (y # ys) = (if positive (cmp x y) then y # js_insert cmp x ys else x # y # ys)"

definition js_sort :: "('a \<Rightarrow> 'a \<Rightarrow> number) \<Rightarrow> 'a list \<Rightarrow> 'a list" where
  "js_sort cmp xs = foldr (js_insert cmp) xs []"

text \<open>\<open>xs[0]\<close> and \<open>xs[xs.length - 1]\<close>: \<open>undefined\<close> on the empty array.\<close>

fun first_elem :: "'a list \<Rightarrow> 'a option" where
  "first_elem [] = None"
| "first_elem (x # _) = Some x"

definition last_elem :: "'a list \<Rightarrow> 'a option" where
  "last_elem xs = (if xs = [] then None else Some (last xs))"

section \<open>Errors\<close>

text \<open>
  The values the code throws. \<open>StatusCodeError c\<close> is the error of \<open>utils.request\<close> for a
  response that is neither 2xx nor a followed redirect: it is the only one that carries a
  \<open>statusCode\<close>. \<open>NetworkError\<close> stands for a failure of the HTTP client itself,
  \<open>ScriptError\<close> for an exception raised while running an extracted script.
\<close>

datatype error =
    Error string
  | StatusCodeError int
  | UnrecoverableError string
  | TypeError string
  | URIError string
  | NetworkError string
  | ScriptError string

fun statusCode :: "error \<Rightarrow> int option" where
  "statusCode (StatusCodeError c) = Some c"
| "statusCode _ = None"

section \<open>format-utils\<close>

record VideoFormat =
  itag :: int
  url :: "string option"
  mimeType :: "string option"
  bitrate :: "number option"
  audioBitrate :: "number option"
  width :: "number option"
  height :: "number option"
  fps :: "number option"
  contentLength :: "string option"
  qualityLabel :: "string option"
  audioSampleRate :: "string option"
  hasVideo :: bool
  hasAudio :: bool
  codecs :: "string option"
  isLive :: bool
  isHLS :: bool
  isDashMPD :: bool
  signatureCipher :: "string option"
  cipher :: "string option"

text \<open>The flags \<open>hasVideo\<close>, \<open>hasAudio\<close>, \<open>isLive\<close>, \<open>isHLS\<close> and \<open>isDashMPD\<close> are only read
  for their truthiness, so an absent flag is \<open>False\<close>.\<close>

datatype FormatFilter = FilterName string | FilterFn "VideoFormat \<Rightarrow> bool"

datatype qitem = IStr string | INum number

datatype quality = QStr string | QNum number | QArr "qitem list"

record FormatOptions =
  qualityOpt :: "quality option"
  filterOpt :: "FormatFilter option"
  formatOpt :: "VideoFormat option"

datatype format_error =
    InvalidFormatGiven
  | FilterNotSupported string
  | NoSuchFormat quality

definition audioEncodingRanks :: "string list" where
  "audioEncodingRanks = [''mp4a'', ''mp3'', ''vorbis'', ''aac'', ''opus'', ''flac'']"

definition videoEncodingRanks :: "string list" where
  "videoEncodingRanks = [''mp4v'', ''avc1'', ''Sorenson H.283'', ''MPEG-4 Visual'', ''VP8'', ''VP9'', ''H.264'']"

text \<open>\<open>Array.prototype.findIndex\<close>: the index of the first match, \<open>-1\<close> when there is none.\<close>

fun findIndex :: "('a \<Rightarrow> bool) \<Rightarrow> 'a list \<Rightarrow> int" where
  "findIndex p [] = -1"
| "findIndex p (x # xs) = (if p x then 0 else (let i = findIndex p xs in if i < 0 then i else i + 1))"

definition getVideoBitrate :: "VideoFormat \<Rightarrow> number" where
  "getVideoBitrate fmt = Num (opt_or_zero (bitrate fmt))"

definition codecs_includes :: "VideoFormat \<Rightarrow> string \<Rightarrow> bool" where
  "codecs_includes fmt enc = (case codecs fmt of None \<Rightarrow> False | Some c \<Rightarrow> str_includes c enc)"

definition getVideoEncodingRank :: "VideoFormat \<Rightarrow> number" where
  "getVideoEncodingRank fmt = Num (findIndex (codecs_includes fmt) videoEncodingRanks)"

definition getAudioBitrate :: "VideoFormat \<Rightarrow> number" where
  "getAudioBitrate fmt = Num (opt_or_zero (audioBitrate fmt))"

definition getAudioEncodingRank :: "VideoFormat \<Rightarrow> number" where
  "getAudioEncodingRank fmt = Num (findIndex (codecs_includes fmt) audioEncodingRanks)"

fun sortFormatsBy :: "VideoFormat \<Rightarrow> VideoFormat \<Rightarrow> (VideoFormat \<Rightarrow> number) list \<Rightarrow> number" where
  "sortFormatsBy a b [] = Num 0"
| "sortFormatsBy a b (fn # fns) =
     (let res = minus_num (fn b) (fn a) in if res \<noteq> Num 0 then res else sortFormatsBy a b fns)"

definition qualityLabelInt :: "VideoFormat \<Rightarrow> number" where
  "qualityLabelInt fmt = parseInt (str_or (qualityLabel fmt) ''0'')"

definition sortFormatsByVideo :: "VideoFormat \<Rightarrow> VideoFormat \<Rightarrow> number" where
  "sortFormatsByVideo a b = sortFormatsBy a b [qualityLabelInt, getVideoBitrate, getVideoEncodingRank]"

definition sortFormatsByAudio :: "VideoFormat \<Rightarrow> VideoFormat \<Rightarrow> number" where
  "sortFormatsByAudio a b = sortFormatsBy a b [getAudioBitrate, getAudioEncodingRank]"

definition bool_num :: "bool \<Rightarrow> number" where
  "bool_num b = Num (if b then 1 else 0)"

definition sortFormats :: "VideoFormat \<Rightarrow> VideoFormat \<Rightarrow> number" where
  "sortFormats a b = sortFormatsBy a b
     [\<lambda>f. bool_num (isHLS f),
      \<lambda>f. bool_num (isDashMPD f),
      \<lambda>f. bool_num (positive (parseInt (str_or (contentLength f) ''0''))),
      \<lambda>f. bool_num (hasVideo f \<and> hasAudio f),
      \<lambda>f. bool_num (hasVideo f),
      \<lambda>f. Num (or_zero (qualityLabelInt f)),
      getVideoBitrate,
      getAudioBitrate,
      getVideoEncodingRank,
      getAudioEncodingRank]"

text \<open>Template-literal conversion of an itag given as a string or a number.\<close>

fun qitem_string :: "qitem \<Rightarrow> string" where
  "qitem_string (IStr s) = s"
| "qitem_string (INum n) = string_of_number n"

fun truthy_qitem :: "qitem \<Rightarrow> bool" where
  "truthy_qitem (IStr s) = (s \<noteq> [])"
| "truthy_qitem (INum NaN) = False"
| "truthy_qitem (INum (Num n)) = (n \<noteq> 0)"

definition getFormat :: "VideoFormat list \<Rightarrow> qitem \<Rightarrow> VideoFormat option" where
  "getFormat formats it = find (\<lambda>fmt. string_of_int (itag fmt) = qitem_string it) formats"

fun getFormatByQuality :: "quality \<Rightarrow> VideoFormat list \<Rightarrow> VideoFormat option" where
  "getFormatByQuality (QArr qs) formats =
     (case find (\<lambda>q. getFormat formats q \<noteq> None) qs of
        None \<Rightarrow> None
      | Some foundQuality \<Rightarrow> if truthy_qitem foundQuality then getFormat formats foundQuality else None)"
| "getFormatByQuality (QStr s) formats = getFormat formats (IStr s)"
| "getFormatByQuality (QNum n) formats = getFormat formats (INum n)"

definition filterFormats :: "VideoFormat list \<Rightarrow> FormatFilter \<Rightarrow> format_error + VideoFormat list" where
  "filterFormats formats flt =
    (case (case flt of
        FilterName s \<Rightarrow>
          if s = ''videoandaudio'' \<or> s = ''audioandvideo'' then Inr (\<lambda>f. hasVideo f \<and> hasAudio f)
          else if s = ''video'' then Inr (\<lambda>f. hasVideo f)
          else if s = ''videoonly'' then Inr (\<lambda>f. hasVideo f \<and> \<not> hasAudio f)
          else if s = ''audio'' then Inr (\<lambda>f. hasAudio f)
          else if s = ''audioonly'' then Inr (\<lambda>f. hasAudio f \<and> \<not> hasVideo f)
          else Inl (FilterNotSupported s)
      | FilterFn g \<Rightarrow> Inr g) of
       Inl e \<Rightarrow> Inl e
     | Inr fn \<Rightarrow> Inr (filter (\<lambda>fmt. truthy_str (url fmt) \<and> fn fmt) formats))"

text \<open>The named filters never raise; \<open>filterFormats(formats, 'audio')\<close> and
  \<open>filterFormats(formats, 'video')\<close> inside \<open>chooseFormat\<close> are these lists.\<close>

definition filterAudio :: "VideoFormat list \<Rightarrow> VideoFormat list" where
  "filterAudio formats = (case filterFormats formats (FilterName ''audio'') of Inl _ \<Rightarrow> [] | Inr r \<Rightarrow> r)"

definition filterVideo :: "VideoFormat list \<Rightarrow> VideoFormat list" where
  "filterVideo formats = (case filterFormats formats (FilterName ''video'') of Inl _ \<Rightarrow> [] | Inr r \<Rightarrow> r)"

fun truthy_filter :: "FormatFilter option \<Rightarrow> bool" where
  "truthy_filter None = False"
| "truthy_filter (Some (FilterName s)) = (s \<noteq> [])"
| "truthy_filter (Some (FilterFn _)) = True"

fun truthy_quality :: "quality \<Rightarrow> bool" where
  "truthy_quality (QStr s) = (s \<noteq> [])"
| "truthy_quality (QNum NaN) = False"
| "truthy_quality (QNum (Num n)) = (n \<noteq> 0)"
| "truthy_quality (QArr _) = True"

text \<open>\<open>options.quality || 'highest'\<close>.\<close>

definition quality_or_highest :: "quality option \<Rightarrow> quality" where
  "quality_or_highest q = (case q of None \<Rightarrow> QStr ''highest'' | Some v \<Rightarrow> if truthy_quality v then v else QStr ''highest'')"

definition num_cmp :: "int \<Rightarrow> int \<Rightarrow> number" where
  "num_cmp a b = Num (a - b)"

definition pickHighestAudio :: "VideoFormat list \<Rightarrow> VideoFormat option" where
  "pickHighestAudio formats0 =
    (let formats1 = js_sort sortFormatsByAudio (filterAudio formats0) in
     case first_elem formats1 of
       None \<Rightarrow> None
     | Some bestAudioFormat \<Rightarrow>
        (let formats2 = filter (\<lambda>f. sortFormatsByAudio bestAudioFormat f = Num 0) formats1;
             worstVideoQuality = first_elem (js_sort num_cmp (map (\<lambda>f. or_zero (qualityLabelInt f)) formats2))
         in find (\<lambda>f. Some (or_zero (qualityLabelInt f)) = worstVideoQuality) formats2))"

definition pickHighestVideo :: "VideoFormat list \<Rightarrow> VideoFormat option" where
  "pickHighestVideo formats0 =
    (let formats1 = js_sort sortFormatsByVideo (filterVideo formats0) in
     case first_elem formats1 of
       None \<Rightarrow> None
     | Some bestVideoFormat \<Rightarrow>
        (let formats2 = filter (\<lambda>f. sortFormatsByVideo bestVideoFormat f = Num 0) formats1;
             worstAudioQuality = first_elem (js_sort num_cmp (map (\<lambda>f. opt_or_zero (audioBitrate f)) formats2))
         in find (\<lambda>f. Some (opt_or_zero (audioBitrate f)) = worstAudioQuality) formats2))"

definition selectByQuality :: "quality \<Rightarrow> VideoFormat list \<Rightarrow> VideoFormat option" where
  "selectByQuality q formats =
     (if q = QStr ''highest'' then first_elem formats
      else if q = QStr ''lowest'' then last_elem formats
      else if q = QStr ''highestaudio'' then pickHighestAudio formats
      else if q = QStr ''lowestaudio'' then last_elem (js_sort sortFormatsByAudio (filterAudio formats))
      else if q = QStr ''highestvideo'' then pickHighestVideo formats
      else if q = QStr ''lowestvideo'' then last_elem (js_sort sortFormatsByVideo (filterVideo formats))
      else getFormatByQuality q formats)"

definition dropLiveUnlessHLS :: "VideoFormat list \<Rightarrow> VideoFormat list" where
  "dropLiveUnlessHLS formats =
     (if list_ex isHLS formats then filter (\<lambda>fmt. isHLS fmt \<or> \<not> isLive fmt) formats else formats)"

definition chooseFormat :: "VideoFormat list \<Rightarrow> FormatOptions \<Rightarrow> format_error + VideoFormat" where
  "chooseFormat formats options =
    (case formatOpt options of
       Some given \<Rightarrow> if \<not> truthy_str (url given) then Inl InvalidFormatGiven else Inr given
     | None \<Rightarrow>
        (case (if truthy_filter (filterOpt options)
               then filterFormats formats (the (filterOpt options))
               else Inr formats) of
           Inl e \<Rightarrow> Inl e
         | Inr formats1 \<Rightarrow>
            (let formats2 = dropLiveUnlessHLS formats1;
                 q = quality_or_highest (qualityOpt options)
             in case selectByQuality q formats2 of
                  None \<Rightarrow> Inl (NoSuchFormat q)
                | Some fmt \<Rightarrow> Inr fmt)))"

text \<open>The options object \<open>{quality: q}\<close>, with \<open>q\<close> possibly absent.\<close>

definition qualityOnly :: "quality option \<Rightarrow> FormatOptions" where
  "qualityOnly q = \<lparr>qualityOpt = q, filterOpt = None, formatOpt = None\<rparr>"

text \<open>The vector of ranking keys that \<open>sortFormatsBy\<close> compares, in order.\<close>

definition keys :: "(VideoFormat \<Rightarrow> number) list \<Rightarrow> VideoFormat \<Rightarrow> int list" where
  "keys fns f = map (\<lambda>fn. or_zero (fn f)) fns"

subsection \<open>Format objects and dictionaries\<close>

text \<open>
  A JavaScript object used as a dictionary from strings to values, in insertion order:
  assigning to a key that is present replaces its value in place, assigning to a new key
  appends it. (Keys that look like array indices would be ordered first; the keys here
  are URLs.)
\<close>

fun obj_set :: "string \<Rightarrow> 'v \<Rightarrow> (string \<times> 'v) list \<Rightarrow> (string \<times> 'v) list" where
  "obj_set k v [] = [(k, v)]"
| "obj_set k v ((k', v') # d) = (if k = k' then (k, v) # d else (k', v') # obj_set k v d)"

type_synonym format_dict = "(string \<times> VideoFormat) list"

text \<open>An object literal of a format with every field absent but the itag.\<close>

definition bareFormat :: "int \<Rightarrow> VideoFormat" where
  "bareFormat i = \<lparr>itag = i, url = None, mimeType = None, bitrate = None, audioBitrate = None,
     width = None, height = None, fps = None, contentLength = None, qualityLabel = None,
     audioSampleRate = None, hasVideo = False, hasAudio = False, codecs = None, isLive = False,
     isHLS = False, isDashMPD = False, signatureCipher = None, cipher = None\<rparr>"

text \<open>Template-literal conversion of a possibly absent string.\<close>

definition template_str :: "string option \<Rightarrow> string" where
  "template_str s = (case s of None \<Rightarrow> ''undefined'' | Some t \<Rightarrow> t)"

section \<open>cache\<close>

text \<open>
  The values a cache holds: \<open>null\<close>, a promise (known by its identity), or anything else.
\<close>

datatype 'v cached = Null | Promise nat | Plain 'v

text \<open>
  The state of a \<open>Cache\<close> and of what it has scheduled: the entries with their timer
  handles, the timeouts still pending (each deletes its key when it fires), the next
  timer handle, and the pending awaits of \<open>getOrSet\<close>, each a promise and the key to
  delete if that promise rejects.
\<close>

record ('k, 'v) cache_state =
  entries :: "'k \<rightharpoonup> (nat \<times> 'v cached)"
  timers :: "nat \<rightharpoonup> 'k"
  next_tid :: nat
  watchers :: "(nat \<times> 'k) list"

definition cache_has :: "('k, 'v) cache_state \<Rightarrow> 'k \<Rightarrow> bool" where
  "cache_has st key = (entries st key \<noteq> None)"

definition cache_get :: "('k, 'v) cache_state \<Rightarrow> 'k \<Rightarrow> 'v cached" where
  "cache_get st key = (case entries st key of None \<Rightarrow> Null | Some entry \<Rightarrow> snd entry)"

definition cache_delete :: "('k, 'v) cache_state \<Rightarrow> 'k \<Rightarrow> ('k, 'v) cache_state" where
  "cache_delete st key =
     (case entries st key of
        None \<Rightarrow> st
      | Some entry \<Rightarrow> st\<lparr>entries := (entries st)(key := None), timers := (timers st)(fst entry := None)\<rparr>)"

definition cache_set :: "('k, 'v) cache_state \<Rightarrow> 'k \<Rightarrow> 'v cached \<Rightarrow> ('k, 'v) cache_state" where
  "cache_set st key v =
     (let cleared = (case entries st key of
                       None \<Rightarrow> timers st
                     | Some entry \<Rightarrow> (timers st)(fst entry := None));
          tid = next_tid st
      in st\<lparr>entries := (entries st)(key \<mapsto> (tid, v)), timers := cleared(tid \<mapsto> key), next_tid := Suc tid\<rparr>)"

text \<open>
  \<open>getOrSet(key, fn)\<close>. \<open>fn\<close> is the outcome of the producer if it is called: the value
  it returns or the error it throws. The result is what \<open>getOrSet\<close> returns or throws,
  the new state, and whether the producer was called.
\<close>

definition getOrSet :: "('k, 'v) cache_state \<Rightarrow> 'k \<Rightarrow> error + 'v cached
    \<Rightarrow> (error + 'v cached) \<times> ('k, 'v) cache_state \<times> bool" where
  "getOrSet st key fn =
     (if cache_has st key then
        (let v = cache_get st key in if v \<noteq> Null then (Inr v, st, False) else (fn, st, True))
      else
        (case fn of
           Inl e \<Rightarrow> (Inl e, st, True)
         | Inr v \<Rightarrow>
            (let st1 = cache_set st key v;
                 st2 = (case v of Promise p \<Rightarrow> st1\<lparr>watchers := watchers st1 @ [(p, key)]\<rparr> | _ \<Rightarrow> st1)
             in (Inr v, st2, True))))"

text \<open>The three things that happen later: a timeout fires, a promise rejects, a promise
  fulfils. A settled promise resumes the awaits on it, in the order they were made.\<close>

definition timer_fired :: "('k, 'v) cache_state \<Rightarrow> nat \<Rightarrow> ('k, 'v) cache_state" where
  "timer_fired st tid =
     (case timers st tid of
        None \<Rightarrow> st
      | Some key \<Rightarrow> cache_delete (st\<lparr>timers := (timers st)(tid := None)\<rparr>) key)"

definition promise_rejected :: "('k, 'v) cache_state \<Rightarrow> nat \<Rightarrow> ('k, 'v) cache_state" where
  "promise_rejected st p =
     foldl (\<lambda>s w. if fst w = p then cache_delete s (snd w) else s)
       (st\<lparr>watchers := filter (\<lambda>w. fst w \<noteq> p) (watchers st)\<rparr>) (watchers st)"

definition promise_fulfilled :: "('k, 'v) cache_state \<Rightarrow> nat \<Rightarrow> ('k, 'v) cache_state" where
  "promise_fulfilled st p = st\<lparr>watchers := filter (\<lambda>w. fst w \<noteq> p) (watchers st)\<rparr>"

text \<open>
  What can happen to a cache over time, one event after the other: a call of
  \<open>getOrSet\<close> with the outcome of its producer, a timeout firing, a promise rejecting, a
  promise fulfilling. (\<open>set\<close>, \<open>delete\<close> and \<open>clear\<close> called from outside are not among
  the events.)
\<close>

datatype ('k, 'v) cache_event =
    GetOrSet 'k "error + 'v cached"
  | TimerFired nat
  | Rejected nat
  | Fulfilled nat

fun cache_step :: "('k, 'v) cache_state \<Rightarrow> ('k, 'v) cache_event \<Rightarrow> ('k, 'v) cache_state" where
  "cache_step st (GetOrSet key fn) = fst (snd (getOrSet st key fn))"
| "cache_step st (TimerFired tid) = timer_fired st tid"
| "cache_step st (Rejected p) = promise_rejected st p"
| "cache_step st (Fulfilled p) = promise_fulfilled st p"

definition cache_run :: "('k, 'v) cache_state \<Rightarrow> ('k, 'v) cache_event list \<Rightarrow> ('k, 'v) cache_state" where
  "cache_run st evs = foldl cache_step st evs"

text \<open>\<open>new Cache()\<close>.\<close>

definition new_cache :: "('k, 'v) cache_state" where
  "new_cache = \<lparr>entries = Map.empty, timers = Map.empty, next_tid = 0, watchers = []\<rparr>"

text \<open>
  The timeouts pending are those of the entries: every entry holds the handle of a
  pending timeout that deletes its key, and every pending timeout belongs to the entry of
  its key.
\<close>

definition timers_match :: "('k, 'v) cache_state \<Rightarrow> bool" where
  "timers_match st \<longleftrightarrow>
     (\<forall>key tid v. entries st key = Some (tid, v) \<longrightarrow> tid < next_tid st \<and> timers st tid = Some key)
   \<and> (\<forall>tid key. timers st tid = Some key \<longrightarrow> (\<exists>v. entries st key = Some (tid, v)))"

section \<open>utils: playError\<close>

record Playability =
  ps_status :: "string option"
  ps_reason :: "string option"
  ps_messages :: "string list option"

record StreamingData =
  sd_formats :: "VideoFormat list option"
  sd_adaptiveFormats :: "VideoFormat list option"
  dashManifestUrl :: "string option"
  hlsManifestUrl :: "string option"

record VideoDetails =
  videoId :: "string option"

record PlayerResponse =
  playabilityStatus :: "Playability option"
  streamingData :: "StreamingData option"
  videoDetails :: "VideoDetails option"

text \<open>\<open>playability.messages && playability.messages[0]\<close>.\<close>

definition firstMessage :: "Playability \<Rightarrow> string option" where
  "firstMessage p = (case ps_messages p of None \<Rightarrow> None | Some [] \<Rightarrow> None | Some (m # _) \<Rightarrow> Some m)"

definition playError :: "PlayerResponse option \<Rightarrow> error option" where
  "playError player_response =
     (case player_response of
        None \<Rightarrow> None
      | Some pr \<Rightarrow>
         (case playabilityStatus pr of
            None \<Rightarrow> None
          | Some playability \<Rightarrow>
              if str_or (ps_status playability) '''' \<in> set [''ERROR'', ''LOGIN_REQUIRED'']
              then Some (UnrecoverableError
                     (str_or (ps_reason playability) (str_or (firstMessage playability) ''Unknown error'')))
              else if ps_status playability = Some ''LIVE_STREAM_OFFLINE''
              then Some (UnrecoverableError (str_or (ps_reason playability) ''The live stream is offline.''))
              else if ps_status playability = Some ''UNPLAYABLE''
              then Some (UnrecoverableError (str_or (ps_reason playability) ''This video is unavailable.''))
              else None))"

section \<open>sig: deciphering format URLs\<close>

text \<open>Sequencing of steps that may throw: the first error ends the computation.\<close>

definition andThen :: "error + 'a \<Rightarrow> ('a \<Rightarrow> error + 'b) \<Rightarrow> error + 'b" where
  "andThen r f = (case r of Inl e \<Rightarrow> Inl e | Inr x \<Rightarrow> f x)"

text \<open>
  What the code uses of the runtime, taken as parameters: \<open>decodeURIComponent\<close>,
  \<open>querystring.parse\<close>, and the \<open>URL\<close> class (\<open>new URL(s)\<close>, \<open>searchParams.get\<close>,
  \<open>searchParams.set\<close>, \<open>toString\<close>) over a type \<open>'u\<close> of URL objects. A compiled
  \<open>vm.Script\<close> is the function from the value bound to its one argument to the value
  \<open>runInNewContext\<close> returns or the error it throws.
\<close>

record 'u platform =
  decodeURIComponent :: "string \<Rightarrow> error + string"
  querystring_parse :: "string \<Rightarrow> (string \<times> string) list"
  url_parse :: "string \<Rightarrow> error + 'u"
  searchParams_get :: "'u \<Rightarrow> string \<Rightarrow> string option"
  searchParams_set :: "'u \<Rightarrow> string \<Rightarrow> string \<Rightarrow> 'u"
  url_toString :: "'u \<Rightarrow> string"

type_synonym script = "string \<Rightarrow> error + string"

definition decipher :: "'u platform \<Rightarrow> script \<Rightarrow> string \<Rightarrow> error + string option" where
  "decipher P decipherScript u =
     (let args = querystring_parse P u in
      if \<not> truthy_str (map_of args ''s'') then Inr (map_of args ''url'')
      else
        andThen (decodeURIComponent P (template_str (map_of args ''url''))) (\<lambda>decoded.
        andThen (url_parse P decoded) (\<lambda>components.
        andThen (decodeURIComponent P (template_str (map_of args ''s''))) (\<lambda>sig.
        andThen (decipherScript sig) (\<lambda>deciphered.
          Inr (Some (url_toString P
            (searchParams_set P components (str_or (map_of args ''sp'') ''sig'') deciphered))))))))"

definition nTransform :: "'u platform \<Rightarrow> script option \<Rightarrow> string option \<Rightarrow> error + string option" where
  "nTransform P nTransformScript u =
     andThen (decodeURIComponent P (template_str u)) (\<lambda>decoded.
     andThen (url_parse P decoded) (\<lambda>components.
       (let n = searchParams_get P components ''n'' in
        if \<not> truthy_str n \<or> nTransformScript = None then Inr u
        else andThen ((the nTransformScript) (the n)) (\<lambda>transformed.
               Inr (Some (url_toString P (searchParams_set P components ''n'' transformed)))))))"

text \<open>\<open>setDownloadURL\<close> changes the format in place; the model returns the changed format,
  or the error thrown.\<close>

definition setDownloadURL ::
  "'u platform \<Rightarrow> VideoFormat \<Rightarrow> script option \<Rightarrow> script option \<Rightarrow> error + VideoFormat" where
  "setDownloadURL P fmt decipherScript nTransformScript =
     (case decipherScript of
        None \<Rightarrow> Inr fmt
      | Some dec \<Rightarrow>
         (let isCipher = (\<not> truthy_str (url fmt));
              u = (if truthy_str (url fmt) then url fmt
                   else if truthy_str (signatureCipher fmt) then signatureCipher fmt
                   else cipher fmt)
          in case u of
               None \<Rightarrow> Inr fmt
             | Some s \<Rightarrow>
                 andThen (if isCipher then decipher P dec s else Inr (Some s)) (\<lambda>plain.
                 andThen (nTransform P nTransformScript plain) (\<lambda>transformed.
                   Inr (fmt\<lparr>url := transformed, signatureCipher := None, cipher := None\<rparr>)))))"

text \<open>The \<open>forEach\<close> of \<open>decipherFormats\<close>: an exception of \<open>setDownloadURL\<close> leaves
  the loop and the function.\<close>

fun decipherEach ::
  "'u platform \<Rightarrow> script option \<Rightarrow> script option \<Rightarrow> VideoFormat list \<Rightarrow> format_dict \<Rightarrow> error + format_dict" where
  "decipherEach P dec nt [] decipheredFormats = Inr decipheredFormats"
| "decipherEach P dec nt (fmt # fmts) decipheredFormats =
     andThen (setDownloadURL P fmt dec nt) (\<lambda>fmt'.
       decipherEach P dec nt fmts
         (if truthy_str (url fmt') then obj_set (the (url fmt')) fmt' decipheredFormats
          else decipheredFormats))"

text \<open>\<open>decipherFormats\<close>, given the outcome of \<open>getFunctions\<close>: the two scripts, either
  of which may be absent, or the error of fetching the player file.\<close>

definition decipherFormats ::
  "'u platform \<Rightarrow> VideoFormat list \<Rightarrow> error + (script option \<times> script option) \<Rightarrow> error + format_dict" where
  "decipherFormats P formats0 functions =
     andThen functions (\<lambda>scripts. decipherEach P (fst scripts) (snd scripts) formats0 [])"

section \<open>info: retryFunc\<close>

record RetryOptions =
  maxRetries :: "int option"
  backoff :: "(int \<times> int) option"

text \<open>
  \<open>err?.statusCode < 500\<close>: an absent status code compares false.
\<close>

definition statusBelow500 :: "error \<Rightarrow> bool" where
  "statusBelow500 err = (case statusCode err of None \<Rightarrow> False | Some c \<Rightarrow> c < 500)"

datatype retry_event = Called nat | Waited int

text \<open>
  The loop of \<open>retryFunc\<close>. \<open>func k\<close> is the outcome of the call made when
  \<open>currentTry = k\<close>; the result is the returned value (\<open>None\<close> when \<open>result\<close> was
  never assigned) or the thrown error, with the calls and the waits in order.
\<close>

function retryLoop ::
  "(nat \<Rightarrow> error + 'a) \<Rightarrow> int \<Rightarrow> int \<Rightarrow> int \<Rightarrow> int \<Rightarrow> (error + 'a option) \<times> retry_event list" where
  "retryLoop func maxR inc mx currentTry =
     (if currentTry \<le> maxR then
        (case func (nat currentTry) of
           Inr r \<Rightarrow> (Inr (Some r), [Called (nat currentTry)])
         | Inl err \<Rightarrow>
             if statusBelow500 err \<or> currentTry \<ge> maxR then (Inl err, [Called (nat currentTry)])
             else (let wait = min ((currentTry + 1) * inc) mx;
                       rest = retryLoop func maxR inc mx (currentTry + 1)
                   in (fst rest, Called (nat currentTry) # Waited wait # snd rest)))
      else (Inr None, []))"
  by pat_completeness auto
termination
  by (relation "measure (\<lambda>(func, maxR, inc, mx, currentTry). nat (maxR + 1 - currentTry))") auto

declare retryLoop.simps [simp del]

text \<open>\<open>if (!options.maxRetries) options.maxRetries = 3\<close> and the default backoff.\<close>

definition effMaxRetries :: "RetryOptions \<Rightarrow> int" where
  "effMaxRetries options = (case maxRetries options of None \<Rightarrow> 3 | Some m \<Rightarrow> if m = 0 then 3 else m)"

definition effBackoff :: "RetryOptions \<Rightarrow> int \<times> int" where
  "effBackoff options = (case backoff options of None \<Rightarrow> (500, 5000) | Some b \<Rightarrow> b)"

definition retryFunc :: "(nat \<Rightarrow> error + 'a) \<Rightarrow> RetryOptions \<Rightarrow> (error + 'a option) \<times> retry_event list" where
  "retryFunc func options =
     retryLoop func (effMaxRetries options) (fst (effBackoff options)) (snd (effBackoff options)) 0"

text \<open>The waits of a run, in order, and its number of calls.\<close>

fun waits :: "retry_event list \<Rightarrow> int list" where
  "waits [] = []"
| "waits (Called _ # es) = waits es"
| "waits (Waited w # es) = w # waits es"

fun calls :: "retry_event list \<Rightarrow> nat list" where
  "calls [] = []"
| "calls (Called k # es) = k # calls es"
| "calls (Waited _ # es) = calls es"

definition defaultRetry :: RetryOptions where
  "defaultRetry = \<lparr>maxRetries = None, backoff = None\<rparr>"

section \<open>info: manifests\<close>

subsection \<open>getDashManifest\<close>

text \<open>
  The open-tag events of the \<open>sax\<close> parser, which in its non-strict mode reports tag and
  attribute names in upper case.
\<close>

record sax_node =
  tag_name :: string
  tag_attributes :: "(string \<times> string) list"

definition attr :: "sax_node \<Rightarrow> string \<Rightarrow> string option" where
  "attr node a = map_of (tag_attributes node) a"

definition onopentag :: "string \<Rightarrow> sax_node \<Rightarrow> (string \<times> string) list \<times> format_dict
    \<Rightarrow> (string \<times> string) list \<times> format_dict" where
  "onopentag manifestUrl node st =
     (let adaptationSet = fst st; formats = snd st in
      if tag_name node = ''ADAPTATIONSET'' then (tag_attributes node, formats)
      else if tag_name node = ''REPRESENTATION'' then
        (case parseInt_opt (attr node ''ID'') of
           NaN \<Rightarrow> st
         | Num i \<Rightarrow>
            (let base = (bareFormat i)\<lparr>
                   url := Some manifestUrl,
                   bitrate := Some (parseInt_opt (attr node ''BANDWIDTH'')),
                   mimeType := Some (template_str (map_of adaptationSet ''MIMETYPE'') @ ''; codecs=\"''
                                      @ template_str (attr node ''CODECS'') @ ''\"'')\<rparr>;
                 fmt = (if truthy_str (attr node ''HEIGHT'')
                        then base\<lparr>width := Some (parseInt_opt (attr node ''WIDTH'')),
                                  height := Some (parseInt_opt (attr node ''HEIGHT'')),
                                  fps := Some (parseInt_opt (attr node ''FRAMERATE''))\<rparr>
                        else base\<lparr>audioSampleRate := attr node ''AUDIOSAMPLINGRATE''\<rparr>)
             in (adaptationSet, obj_set manifestUrl fmt formats)))
      else st)"

text \<open>
  \<open>getDashManifest\<close>, given the outcome of fetching the manifest and scanning it: the
  open tags in document order, or the error of the request or of the parser.
\<close>

definition getDashManifest :: "string \<Rightarrow> error + sax_node list \<Rightarrow> error + format_dict" where
  "getDashManifest manifestUrl fetched =
     (case fetched of
        Inl e \<Rightarrow> Inl e
      | Inr nodes \<Rightarrow> Inr (snd (foldl (\<lambda>st node. onopentag manifestUrl node st) ([], []) nodes)))"

subsection \<open>getM3U8\<close>

text \<open>\<open>body.split('\n')\<close>.\<close>

fun split_lines :: "string \<Rightarrow> string list" where
  "split_lines [] = [[]]"
| "split_lines (c # cs) =
     (if c = CHR 0x0A then [] # split_lines cs
      else (case split_lines cs of [] \<Rightarrow> [[c]] | l # ls \<Rightarrow> (c # l) # ls))"

definition isHttpLine :: "string \<Rightarrow> bool" where
  "isHttpLine line = (take 7 line = ''http://'' \<or> take 8 line = ''https://'')"

definition isDecimalDigit :: "char \<Rightarrow> bool" where
  "isDecimalDigit c = (let n = (of_char c :: nat) in 48 \<le> n \<and> n \<le> 57)"

text \<open>The first match of \<open>/\/itag\/(\d+)\//\<close>: its group, the digits.\<close>

fun matchItag :: "string \<Rightarrow> string option" where
  "matchItag [] = None"
| "matchItag (c # cs) =
     (if take 6 (c # cs) = ''/itag/''
         \<and> takeWhile isDecimalDigit (drop 6 (c # cs)) \<noteq> []
         \<and> take 1 (dropWhile isDecimalDigit (drop 6 (c # cs))) = ''/''
      then Some (takeWhile isDecimalDigit (drop 6 (c # cs)))
      else matchItag cs)"

definition hlsLine :: "string \<Rightarrow> format_dict \<Rightarrow> format_dict" where
  "hlsLine line formats =
     (case matchItag line of
        None \<Rightarrow> formats
      | Some digits \<Rightarrow> obj_set line ((bareFormat (or_zero (parseInt digits)))\<lparr>url := Some line, contentLength := Some ''''\<rparr>) formats)"

definition getM3U8 :: "error + string \<Rightarrow> error + format_dict" where
  "getM3U8 fetched =
     (case fetched of
        Inl e \<Rightarrow> Inl e
      | Inr body \<Rightarrow> Inr (foldl (\<lambda>formats line. hlsLine line formats) [] (filter isHttpLine (split_lines body))))"

section \<open>info: getBasicInfo and getInfo\<close>

datatype client = WEB_EMBEDDED | TV | IOS | ANDROID | WEB

record VideoInfo =
  player_response :: "PlayerResponse option"
  html5player :: "string option"

record InfoOptions =
  playerClients :: "client list option"
  requestRetry :: RetryOptions

text \<open>
  The outside world of one resolution, as the outcomes of the requests the code makes:
  the \<open>k\<close>-th call of \<open>getWatchHTMLPage\<close>; the exception, if any, that the scraping of
  the metadata raises on the watch page (lines 66 to 92 of \<open>getBasicInfo\<close>, which call
  into \<open>info-extras\<close>); the player URL found in the watch page body and in the embed page,
  when they are fetched for it; the absolute form of the player URL
  (\<open>new URL(html5player, BASE_URL)\<close>); the fetch of the player file by
  \<open>getPlaybackContext\<close> for each of the two device profiles that make it; the response of
  the player API to each device profile; the scripts of \<open>getFunctions\<close>; the DASH and HLS
  manifests by URL; and the order in which the promises that \<open>getInfo\<close> awaits with
  \<open>Promise.all\<close> settle, as their indices in the array.
\<close>

record 'u env =
  platform :: "'u platform"
  getWatchHTMLPage :: "nat \<Rightarrow> error + VideoInfo"
  scrapeMetadata :: "VideoInfo \<Rightarrow> error option"
  watchBodyPlayer :: "error + string option"
  embedPagePlayer :: "error + string option"
  resolvePlayerUrl :: "string \<Rightarrow> error + string"
  getPlaybackContext :: "client \<Rightarrow> error + unit"
  playerRequest :: "client \<Rightarrow> error + PlayerResponse"
  getFunctions :: "error + (script option \<times> script option)"
  dashManifest :: "string \<Rightarrow> error + sax_node list"
  hlsManifest :: "string \<Rightarrow> error + string"
  settleOrder :: "nat list"

text \<open>The requests a resolution issues, in the order the code starts them.\<close>

datatype net_event =
    FetchWatchPage
  | Backoff int
  | FetchWatchPageBody
  | FetchEmbedPage
  | FetchPlayerFile
  | PlayerApiCall client
  | LoadFunctions
  | FetchDashManifest string
  | FetchHlsManifest string

fun retry_net_event :: "retry_event \<Rightarrow> net_event" where
  "retry_net_event (Called _) = FetchWatchPage"
| "retry_net_event (Waited w) = Backoff w"

text \<open>
  \<open>getBasicInfo\<close>: the watch page with retries, the playability check, and the scraping
  of the metadata, of which the model keeps only whether it raises. When the retry loop
  returns without a result (a negative \<open>maxRetries\<close>), reading \<open>info.player_response\<close>
  raises.
\<close>

definition getBasicInfo :: "'u env \<Rightarrow> InfoOptions \<Rightarrow> (error + VideoInfo) \<times> net_event list" where
  "getBasicInfo E options =
     (let r = retryFunc (getWatchHTMLPage E) (requestRetry options);
          events = map retry_net_event (snd r)
      in case fst r of
           Inl e \<Rightarrow> (Inl e, events)
         | Inr None \<Rightarrow> (Inl (TypeError ''Cannot read properties of undefined''), events)
         | Inr (Some info) \<Rightarrow>
             (case playError (player_response info) of
                Some playErr \<Rightarrow> (Inl playErr, events)
              | None \<Rightarrow>
                  (case scrapeMetadata E info of
                     Some e \<Rightarrow> (Inl e, events)
                   | None \<Rightarrow> (Inr info, events))))"

text \<open>\<open>applyPlayerClients\<close>.\<close>

definition enabledClients :: "InfoOptions \<Rightarrow> client list" where
  "enabledClients options =
     (case playerClients options of
        None \<Rightarrow> [WEB_EMBEDDED, IOS, ANDROID, TV]
      | Some cs \<Rightarrow> if cs = [] then [WEB_EMBEDDED, IOS, ANDROID, TV] else cs)"

text \<open>
  \<open>info.html5player || getHTML5player(await getWatchHTMLPageBody(..)) ||
  getHTML5player(await getEmbedPageBody(..))\<close>, then the check and \<open>new URL\<close>.
\<close>

definition findHtml5player :: "'u env \<Rightarrow> VideoInfo \<Rightarrow> (error + string) \<times> net_event list" where
  "findHtml5player E info =
     (let found =
        (if truthy_str (html5player info) then (Inr (html5player info), [])
         else (case watchBodyPlayer E of
                 Inl e \<Rightarrow> (Inl e, [FetchWatchPageBody])
               | Inr p \<Rightarrow>
                   if truthy_str p then (Inr p, [FetchWatchPageBody])
                   else (case embedPagePlayer E of
                           Inl e \<Rightarrow> (Inl e, [FetchWatchPageBody, FetchEmbedPage])
                         | Inr q \<Rightarrow> (Inr q, [FetchWatchPageBody, FetchEmbedPage]))))
      in (andThen (fst found) (\<lambda>h.
            if \<not> truthy_str h then Inl (Error ''Unable to find html5player file'')
            else resolvePlayerUrl E (the h)),
          snd found))"

text \<open>The check every device-profile fetch makes on the response of the player API.\<close>

definition validatePlayerResponse :: "string \<Rightarrow> PlayerResponse \<Rightarrow> error + PlayerResponse" where
  "validatePlayerResponse vid response =
     (case playError (Some response) of
        Some playErr \<Rightarrow> Inl playErr
      | None \<Rightarrow>
          (case videoDetails response of
             None \<Rightarrow> Inl (Error ''Malformed response from YouTube'')
           | Some details \<Rightarrow>
               if Some vid \<noteq> videoId details then Inl (Error ''Malformed response from YouTube'')
               else Inr response))"

text \<open>
  One device-profile fetch: \<open>fetchWebEmbeddedPlayer\<close> and \<open>fetchTvPlayer\<close> first fetch
  the player file for the playback context; \<open>fetchIosJsonPlayer\<close> and
  \<open>fetchAndroidJsonPlayer\<close> call the API at once. The result is how the promise settles.
\<close>

definition fetchPlayer :: "'u env \<Rightarrow> string \<Rightarrow> client \<Rightarrow> (error + PlayerResponse) \<times> net_event list" where
  "fetchPlayer E vid c =
     (if c = WEB_EMBEDDED \<or> c = TV then
        (case getPlaybackContext E c of
           Inl e \<Rightarrow> (Inl e, [FetchPlayerFile])
         | Inr _ \<Rightarrow> (andThen (playerRequest E c) (validatePlayerResponse vid), [FetchPlayerFile, PlayerApiCall c]))
      else (andThen (playerRequest E c) (validatePlayerResponse vid), [PlayerApiCall c]))"

text \<open>The device profiles in the order the code pushes their promises.\<close>

definition devicePromises :: "'u env \<Rightarrow> string \<Rightarrow> InfoOptions \<Rightarrow> ((error + PlayerResponse) \<times> net_event list) list" where
  "devicePromises E vid options =
     map (fetchPlayer E vid) (filter (\<lambda>c. c \<in> set (enabledClients options)) [WEB_EMBEDDED, TV, IOS, ANDROID])"

text \<open>\<open>successfulResponses\<close>: the values of the fulfilled promises, in that order.\<close>

definition successfulResponses :: "'u env \<Rightarrow> string \<Rightarrow> InfoOptions \<Rightarrow> PlayerResponse list" where
  "successfulResponses E vid options =
     concat (map (\<lambda>r. case fst r of Inl _ \<Rightarrow> [] | Inr v \<Rightarrow> [v]) (devicePromises E vid options))"

definition parseFormats :: "PlayerResponse option \<Rightarrow> VideoFormat list" where
  "parseFormats pr =
     (case pr of
        None \<Rightarrow> []
      | Some r \<Rightarrow>
         (case streamingData r of
            None \<Rightarrow> []
          | Some sd \<Rightarrow>
              (case sd_formats sd of None \<Rightarrow> [] | Some fs \<Rightarrow> fs)
              @ (case sd_adaptiveFormats sd of None \<Rightarrow> [] | Some fs \<Rightarrow> fs)))"

definition parseAdditionalManifests :: "'u env \<Rightarrow> PlayerResponse option \<Rightarrow> ((error + format_dict) \<times> net_event list) list" where
  "parseAdditionalManifests E pr =
     (case pr of
        None \<Rightarrow> []
      | Some r \<Rightarrow>
         (case streamingData r of
            None \<Rightarrow> []
          | Some sd \<Rightarrow>
              (if truthy_str (dashManifestUrl sd)
               then [(getDashManifest (the (dashManifestUrl sd)) (dashManifest E (the (dashManifestUrl sd))),
                      [FetchDashManifest (the (dashManifestUrl sd))])]
               else [])
              @ (if truthy_str (hlsManifestUrl sd)
                 then [(getM3U8 (hlsManifest E (the (hlsManifestUrl sd))),
                        [FetchHlsManifest (the (hlsManifestUrl sd))])]
                 else [])))"

text \<open>The promises \<open>getInfo\<close> pushes onto \<open>funcs\<close> for the response it has chosen.\<close>

definition formatFuncs :: "'u env \<Rightarrow> PlayerResponse option \<Rightarrow> ((error + format_dict) \<times> net_event list) list" where
  "formatFuncs E pr =
     (decipherFormats (platform E) (parseFormats pr) (getFunctions E), [LoadFunctions])
     # parseAdditionalManifests E pr"

text \<open>
  The choice of the source, lines 330 to 368. The \<open>catch\<close> branch is not modelled:
  nothing in the \<open>try\<close> block throws, since the fetches are promises awaited with
  \<open>Promise.allSettled\<close>.
\<close>

definition chooseFuncs :: "'u env \<Rightarrow> string \<Rightarrow> InfoOptions \<Rightarrow> VideoInfo \<Rightarrow> ((error + format_dict) \<times> net_event list) list" where
  "chooseFuncs E vid options info =
     (case successfulResponses E vid options of
        best # _ \<Rightarrow> formatFuncs E (Some best)
      | [] \<Rightarrow>
          if WEB \<in> set (enabledClients options) then formatFuncs E (player_response info)
          else [])"

text \<open>
  \<open>Promise.all\<close>, given how each promise of the array settles and the order in which
  they settle: the values in the order of the array when every promise fulfils, and
  otherwise the reason of the promise that rejects first in time. Indices that the order
  does not list settle after the listed ones, in the order of the array.
\<close>

definition awaitAll :: "nat list \<Rightarrow> (error + 'a) list \<Rightarrow> error + 'a list" where
  "awaitAll order rs =
     (case find (\<lambda>i. i < length rs \<and> isl (rs ! i)) (order @ [0..<length rs]) of
        Some i \<Rightarrow> Inl (projl (rs ! i))
      | None \<Rightarrow> Inr (map projr rs))"

text \<open>\<open>Object.values(Object.assign({}, ...results))\<close>.\<close>

definition mergeFormats :: "format_dict list \<Rightarrow> VideoFormat list" where
  "mergeFormats results = map snd (foldl (\<lambda>target kv. obj_set (fst kv) (snd kv) target) [] (concat results))"

definition usable :: "VideoFormat \<Rightarrow> bool" where
  "usable fmt = (truthy_str (url fmt) \<and> truthy_str (mimeType fmt))"

text \<open>Lines 370 to 381: from the promises on \<open>funcs\<close> to the list of usable formats.\<close>

definition collectFormats :: "nat list \<Rightarrow> (error + format_dict) list \<Rightarrow> error + VideoFormat list" where
  "collectFormats order funcs =
     (if funcs = [] then Inl (Error ''Failed to find any playable formats'')
      else andThen (awaitAll order funcs) (\<lambda>results.
             if filter usable (mergeFormats results) = [] then Inl (Error ''No playable formats found'')
             else Inr (filter usable (mergeFormats results))))"

text \<open>
  \<open>getInfo\<close> up to line 381: the usable formats of the resolution, before they are
  enriched and ranked, or the error thrown, with the requests issued. The requests of
  the device profiles run concurrently, and so do those of deciphering and of the
  manifests: the list holds them in the order the code starts them.
\<close>

definition getInfo :: "'u env \<Rightarrow> string \<Rightarrow> InfoOptions \<Rightarrow> (error + VideoFormat list) \<times> net_event list" where
  "getInfo E vid options =
     (case getBasicInfo E options of
        (Inl e, ev1) \<Rightarrow> (Inl e, ev1)
      | (Inr info, ev1) \<Rightarrow>
          (case findHtml5player E info of
             (Inl e, ev2) \<Rightarrow> (Inl e, ev1 @ ev2)
           | (Inr h, ev2) \<Rightarrow>
               (let funcs = chooseFuncs E vid options info
                in (collectFormats (settleOrder E) (map fst funcs),
                    ev1 @ ev2 @ concat (map snd (devicePromises E vid options)) @ concat (map snd funcs)))))"

section \<open>index: chunked ranged requests\<close>



















section \<open>Examples\<close>

subsection \<open>Example formats\<close>

text \<open>The two formats of the scenario \<open>[{itag:18, hasVideo:true, hasAudio:true},
  {itag:140, hasVideo:false, hasAudio:true}]\<close>, with every other field absent.\<close>

definition scenario_fmt18 :: VideoFormat where
  "scenario_fmt18 = \<lparr>itag = 18, url = None, mimeType = None, bitrate = None, audioBitrate = None,
     width = None, height = None, fps = None, contentLength = None, qualityLabel = None,
     audioSampleRate = None, hasVideo = True, hasAudio = True, codecs = None, isLive = False,
     isHLS = False, isDashMPD = False, signatureCipher = None, cipher = None\<rparr>"

definition scenario_fmt140 :: VideoFormat where
  "scenario_fmt140 = \<lparr>itag = 140, url = None, mimeType = None, bitrate = None, audioBitrate = None,
     width = None, height = None, fps = None, contentLength = None, qualityLabel = None,
     audioSampleRate = None, hasVideo = False, hasAudio = True, codecs = None, isLive = False,
     isHLS = False, isDashMPD = False, signatureCipher = None, cipher = None\<rparr>"

text \<open>The same two formats carrying a URL.\<close>

definition url_fmt18 :: VideoFormat where
  "url_fmt18 = scenario_fmt18\<lparr>url := Some ''https://example.com/18''\<rparr>"

definition url_fmt140 :: VideoFormat where
  "url_fmt140 = scenario_fmt140\<lparr>url := Some ''https://example.com/140''\<rparr>"

text \<open>The same two formats as a resolution produces them: the video format also carries
  its quality label.\<close>

definition resolved_fmt18 :: VideoFormat where
  "resolved_fmt18 = url_fmt18\<lparr>qualityLabel := Some ''360p''\<rparr>"

definition resolved_fmt140 :: VideoFormat where
  "resolved_fmt140 = url_fmt140"

text \<open>A second muxed format, 720p, with the same (absent) audio fields as itag 18; and
  two muxed formats that tie on the video ranking and differ in audio bitrate.\<close>

definition resolved_fmt22 :: VideoFormat where
  "resolved_fmt22 = scenario_fmt18\<lparr>itag := 22, url := Some ''https://example.com/22'',
     qualityLabel := Some ''720p''\<rparr>"

definition tied_video_96 :: VideoFormat where
  "tied_video_96 = resolved_fmt18\<lparr>audioBitrate := Some (Num 96)\<rparr>"

definition tied_video_128 :: VideoFormat where
  "tied_video_128 = resolved_fmt18\<lparr>itag := 34, url := Some ''https://example.com/34'',
     audioBitrate := Some (Num 128)\<rparr>"

subsection \<open>Example calls\<close>

text \<open>A call that always fails validation, one that always gets a 404, one that gets a
  503 twice and then succeeds, and one that gets a 503 and then always a 404.\<close>

definition failing_parse :: "nat \<Rightarrow> error + unit" where
  "failing_parse k = Inl (Error ''Error when parsing watch.html, maybe YouTube made a change.'')"

definition failing_404 :: "nat \<Rightarrow> error + unit" where
  "failing_404 k = Inl (StatusCodeError 404)"

definition failing_503_twice :: "nat \<Rightarrow> error + unit" where
  "failing_503_twice k = (if k < 2 then Inl (StatusCodeError 503) else Inr ())"

definition failing_503_then_404 :: "nat \<Rightarrow> error + unit" where
  "failing_503_then_404 k = (if k = 0 then Inl (StatusCodeError 503) else Inl (StatusCodeError 404))"

subsection \<open>Example download\<close>








subsection \<open>Example manifest\<close>

definition dash_url :: string where
  "dash_url = ''https://manifest.googlevideo.com/api/manifest/dash/id/abc''"

definition two_representations :: "sax_node list" where
  "two_representations =
    [\<lparr>tag_name = ''MPD'', tag_attributes = []\<rparr>,
     \<lparr>tag_name = ''ADAPTATIONSET'', tag_attributes = [(''MIMETYPE'', ''video/mp4'')]\<rparr>,
     \<lparr>tag_name = ''REPRESENTATION'', tag_attributes =
        [(''ID'', ''133''), (''CODECS'', ''avc1.4d4015''), (''WIDTH'', ''426''), (''HEIGHT'', ''240''),
         (''FRAMERATE'', ''30''), (''BANDWIDTH'', ''250000'')]\<rparr>,
     \<lparr>tag_name = ''ADAPTATIONSET'', tag_attributes = [(''MIMETYPE'', ''audio/mp4'')]\<rparr>,
     \<lparr>tag_name = ''REPRESENTATION'', tag_attributes =
        [(''ID'', ''140''), (''CODECS'', ''mp4a.40.2''), (''AUDIOSAMPLINGRATE'', ''44100''),
         (''BANDWIDTH'', ''130000'')]\<rparr>]"

definition isItagRepresentation :: "sax_node \<Rightarrow> bool" where
  "isItagRepresentation node = (tag_name node = ''REPRESENTATION'' \<and> parseInt_opt (attr node ''ID'') \<noteq> NaN)"

subsection \<open>Example platform\<close>

text \<open>
  A small instance of the runtime for the examples. It agrees with Node on absolute
  \<open>http\<close> and \<open>https\<close> URLs without a fragment whose query is made of \<open>key=value\<close>
  pairs of unreserved ASCII characters, and on strings without a percent escape.
\<close>

fun split_on :: "char \<Rightarrow> string \<Rightarrow> string list" where
  "split_on sep [] = [[]]"
| "split_on sep (c # cs) =
     (if c = sep then [] # split_on sep cs
      else (case split_on sep cs of [] \<Rightarrow> [[c]] | l # ls \<Rightarrow> (c # l) # ls))"

definition ex_pairs :: "string \<Rightarrow> (string \<times> string) list" where
  "ex_pairs q = map (\<lambda>kv. (takeWhile (\<lambda>c. c \<noteq> CHR ''='') kv, drop 1 (dropWhile (\<lambda>c. c \<noteq> CHR ''='') kv)))
                  (filter (\<lambda>kv. kv \<noteq> []) (split_on CHR ''&'' q))"

definition ex_decode :: "string \<Rightarrow> error + string" where
  "ex_decode s = (if CHR ''%'' \<in> set s then Inl (URIError ''URI malformed'') else Inr s)"

definition ex_url_parse :: "string \<Rightarrow> error + string \<times> (string \<times> string) list" where
  "ex_url_parse s =
     (if take 7 s = ''http://'' \<or> take 8 s = ''https://''
      then Inr (takeWhile (\<lambda>c. c \<noteq> CHR ''?'') s, ex_pairs (drop 1 (dropWhile (\<lambda>c. c \<noteq> CHR ''?'') s)))
      else Inl (TypeError ''Invalid URL''))"

fun ex_replace :: "string \<Rightarrow> string \<Rightarrow> (string \<times> string) list \<Rightarrow> (string \<times> string) list" where
  "ex_replace k v [] = [(k, v)]"
| "ex_replace k v ((k', v') # ps) =
     (if k = k' then (k, v) # filter (\<lambda>p. fst p \<noteq> k) ps else (k', v') # ex_replace k v ps)"

fun ex_join :: "(string \<times> string) list \<Rightarrow> string" where
  "ex_join [] = []"
| "ex_join [(k, v)] = k @ ''='' @ v"
| "ex_join ((k, v) # p # ps) = k @ ''='' @ v @ ''&'' @ ex_join (p # ps)"

definition ex_platform :: "(string \<times> (string \<times> string) list) platform" where
  "ex_platform =
     \<lparr>decodeURIComponent = ex_decode,
      querystring_parse = ex_pairs,
      url_parse = ex_url_parse,
      searchParams_get = (\<lambda>u k. map_of (snd u) k),
      searchParams_set = (\<lambda>u k v. (fst u, ex_replace k v (snd u))),
      url_toString = (\<lambda>u. fst u @ (if snd u = [] then [] else ''?'' @ ex_join (snd u)))\<rparr>"

subsection \<open>Example resolutions\<close>

definition reverse_script :: script where
  "reverse_script s = Inr (rev s)"

definition throwing_script :: script where
  "throwing_script s = Inl (ScriptError ''TypeError: a.split is not a function'')"

definition web_fmt :: VideoFormat where
  "web_fmt = (bareFormat 18)\<lparr>url := Some ''https://example.com/videoplayback?itag=18'',
     mimeType := Some ''video/mp4''\<rparr>"

definition ios_fmt :: VideoFormat where
  "ios_fmt = (bareFormat 140)\<lparr>url := Some ''https://example.com/videoplayback?itag=140'',
     mimeType := Some ''audio/mp4''\<rparr>"

definition throttled_fmt :: VideoFormat where
  "throttled_fmt = (bareFormat 22)\<lparr>url := Some ''https://example.com/videoplayback?itag=22&n=abc'',
     mimeType := Some ''video/mp4''\<rparr>"

definition ok_response :: "VideoFormat list option \<Rightarrow> PlayerResponse" where
  "ok_response fs =
     \<lparr>playabilityStatus = Some \<lparr>ps_status = Some ''OK'', ps_reason = None, ps_messages = None\<rparr>,
      streamingData = (case fs of None \<Rightarrow> None
         | Some l \<Rightarrow> Some \<lparr>sd_formats = Some l, sd_adaptiveFormats = None, dashManifestUrl = None, hlsManifestUrl = None\<rparr>),
      videoDetails = Some \<lparr>videoId = Some ''dQw4w9WgXcQ''\<rparr>\<rparr>"


text \<open>
  A world in which the watch page is served at once with the given response and a player
  URL, the scripts are the given ones, the player API answers each device profile as
  given, every manifest is missing, and the promises settle in the order of the array.
\<close>

definition world :: "PlayerResponse \<Rightarrow> (client \<Rightarrow> error + PlayerResponse) \<Rightarrow> script option \<times> script option
    \<Rightarrow> (string \<times> (string \<times> string) list) env" where
  "world base api scripts =
     \<lparr>platform = ex_platform,
      getWatchHTMLPage = (\<lambda>k. Inr \<lparr>player_response = Some base, html5player = Some ''/s/player/abc/base.js''\<rparr>),
      scrapeMetadata = (\<lambda>info. None),
      watchBodyPlayer = Inr None,
      embedPagePlayer = Inr None,
      resolvePlayerUrl = (\<lambda>h. Inr (''https://www.youtube.com'' @ h)),
      getPlaybackContext = (\<lambda>c. Inr ()),
      playerRequest = api,
      getFunctions = Inr scripts,
      dashManifest = (\<lambda>u. Inl (StatusCodeError 404)),
      hlsManifest = (\<lambda>u. Inl (StatusCodeError 404)),
      settleOrder = []\<rparr>"

definition all_forbidden :: "client \<Rightarrow> error + PlayerResponse" where
  "all_forbidden c = Inl (StatusCodeError 403)"

definition ios_answers :: "PlayerResponse \<Rightarrow> client \<Rightarrow> error + PlayerResponse" where
  "ios_answers r c = (if c = IOS then Inr r else Inl (StatusCodeError 403))"

definition defaultInfoOptions :: InfoOptions where
  "defaultInfoOptions = \<lparr>playerClients = None, requestRetry = defaultRetry\<rparr>"

definition withClients :: "client list \<Rightarrow> InfoOptions" where
  "withClients cs = \<lparr>playerClients = Some cs, requestRetry = defaultRetry\<rparr>"

text \<open>
  Formats for a response of the TV profile: two that carry the same URL, and between them
  one without a MIME type. A player API that answers the TV and the iOS profiles. A
  response that also names a DASH manifest, and a world in which the second promise that
  \<open>getInfo\<close> awaits settles before the first.
\<close>

definition tv_fmt :: VideoFormat where
  "tv_fmt = (bareFormat 137)\<lparr>url := Some ''https://example.com/videoplayback?itag=137'',
     mimeType := Some ''video/mp4''\<rparr>"

definition no_mime_fmt :: VideoFormat where
  "no_mime_fmt = (bareFormat 251)\<lparr>url := Some ''https://example.com/videoplayback?itag=251''\<rparr>"

definition tv_fmt_again :: VideoFormat where
  "tv_fmt_again = (bareFormat 299)\<lparr>url := Some ''https://example.com/videoplayback?itag=137'',
     mimeType := Some ''video/webm''\<rparr>"

definition tv_and_ios_answer :: "client \<Rightarrow> error + PlayerResponse" where
  "tv_and_ios_answer c =
     (if c = TV then Inr (ok_response (Some [tv_fmt, no_mime_fmt, tv_fmt_again]))
      else if c = IOS then Inr (ok_response (Some [ios_fmt]))
      else Inl (StatusCodeError 403))"

definition with_dash :: "PlayerResponse \<Rightarrow> PlayerResponse" where
  "with_dash r = r\<lparr>streamingData :=
     map_option (\<lambda>sd. sd\<lparr>dashManifestUrl := Some ''https://manifest.googlevideo.com/api/manifest/dash/id/abc''\<rparr>)
       (streamingData r)\<rparr>"

definition manifest_first :: "'u env \<Rightarrow> 'u env" where
  "manifest_first E = E\<lparr>settleOrder := [1, 0]\<rparr>"

section \<open>Properties of format-utils\<close>

subsection \<open>Sorting and searching\<close>

lemma set_js_insert: "set (js_insert cmp x ys) = insert x (set ys)"
  by (induction ys) auto

lemma set_js_sort: "set (js_sort cmp xs) = set xs"
  by (induction xs) (simp_all add: js_sort_def set_js_insert)

lemma first_elem_mem: "first_elem xs = Some x \<Longrightarrow> x \<in> set xs"
  by (cases xs) auto

lemma last_elem_mem: "last_elem xs = Some x \<Longrightarrow> x \<in> set xs"
  by (auto simp: last_elem_def split: if_splits)

lemma find_mem: "find P xs = Some x \<Longrightarrow> x \<in> set xs"
  by (induction xs) (auto split: if_splits)

lemma find_sat: "find P xs = Some x \<Longrightarrow> P x"
  by (induction xs) (auto split: if_splits)

lemma js_insert_sorted:
  fixes key :: "'a \<Rightarrow> 'k::linorder"
  assumes "sorted_wrt (\<lambda>a b. key b \<le> key a) ys"
    and "\<forall>y\<in>set ys. positive (cmp x y) \<longleftrightarrow> key x < key y"
  shows "sorted_wrt (\<lambda>a b. key b \<le> key a) (js_insert cmp x ys)"
  using assms
proof (induction ys)
  case Nil
  then show ?case by simp
next
  case (Cons y ys)
  show ?case
  proof (cases "positive (cmp x y)")
    case True
    with Cons show ?thesis by (auto simp: set_js_insert)
  next
    case False
    with Cons.prems have "key y \<le> key x" by auto
    with Cons.prems False show ?thesis by auto
  qed
qed

lemma js_sort_sorted:
  fixes key :: "'a \<Rightarrow> 'k::linorder"
  assumes "\<forall>x\<in>set xs. \<forall>y\<in>set xs. positive (cmp x y) \<longleftrightarrow> key x < key y"
  shows "sorted_wrt (\<lambda>a b. key b \<le> key a) (js_sort cmp xs)"
  using assms
proof (induction xs)
  case Nil
  then show ?case by (simp add: js_sort_def)
next
  case (Cons x xs)
  then have "sorted_wrt (\<lambda>a b. key b \<le> key a) (js_sort cmp xs)" by simp
  moreover from Cons.prems have "\<forall>y\<in>set (js_sort cmp xs). positive (cmp x y) \<longleftrightarrow> key x < key y"
    by (simp add: set_js_sort)
  ultimately have "sorted_wrt (\<lambda>a b. key b \<le> key a) (js_insert cmp x (js_sort cmp xs))"
    by (rule js_insert_sorted)
  then show ?case by (simp add: js_sort_def)
qed

lemma sorted_first_max:
  fixes key :: "'a \<Rightarrow> 'k::linorder"
  shows "sorted_wrt (\<lambda>a b. key b \<le> key a) xs \<Longrightarrow> first_elem xs = Some h \<Longrightarrow> g \<in> set xs
    \<Longrightarrow> key g \<le> key h"
  by (cases xs) auto

lemma sorted_last_min:
  fixes key :: "'a \<Rightarrow> 'k::linorder"
  shows "sorted_wrt (\<lambda>a b. key b \<le> key a) xs \<Longrightarrow> last_elem xs = Some l \<Longrightarrow> g \<in> set xs
    \<Longrightarrow> key l \<le> key g"
proof (induction xs)
  case Nil
  then show ?case by simp
next
  case (Cons x xs)
  then show ?case by (cases "xs = []") (auto simp: last_elem_def)
qed

lemma num_sort_first_min:
  assumes "first_elem (js_sort num_cmp ns) = Some m" and "n \<in> set ns"
  shows "m \<le> n"
proof -
  have "\<forall>x\<in>set ns. \<forall>y\<in>set ns. positive (num_cmp x y) \<longleftrightarrow> - x < - y"
    by (simp add: num_cmp_def)
  then have "sorted_wrt (\<lambda>a b. - b \<le> - a) (js_sort num_cmp ns)"
    by (rule js_sort_sorted [where key = uminus])
  from sorted_first_max [where key = uminus, OF this assms(1), of n] assms(2)
  show ?thesis by (simp add: set_js_sort)
qed

lemma js_insert_filter:
  fixes key :: "'a \<Rightarrow> 'k::linorder"
  assumes "\<forall>y\<in>set ys. positive (cmp x y) \<longleftrightarrow> key x < key y"
  shows "filter (\<lambda>z. key z = k) (js_insert cmp x ys)
       = (if key x = k then x # filter (\<lambda>z. key z = k) ys else filter (\<lambda>z. key z = k) ys)"
  using assms by (induction ys) auto

lemma js_sort_stable:
  fixes key :: "'a \<Rightarrow> 'k::linorder"
  assumes "\<forall>x\<in>set xs. \<forall>y\<in>set xs. positive (cmp x y) \<longleftrightarrow> key x < key y"
  shows "filter (\<lambda>z. key z = k) (js_sort cmp xs) = filter (\<lambda>z. key z = k) xs"
  using assms
proof (induction xs)
  case Nil
  then show ?case by (simp add: js_sort_def)
next
  case (Cons x xs)
  then have IH: "filter (\<lambda>z. key z = k) (js_sort cmp xs) = filter (\<lambda>z. key z = k) xs" by simp
  from Cons.prems have "\<forall>y\<in>set (js_sort cmp xs). positive (cmp x y) \<longleftrightarrow> key x < key y"
    by (simp add: set_js_sort)
  from js_insert_filter [where key = key and cmp = cmp and x = x and ys = "js_sort cmp xs" and k = k, OF this] IH
  show ?case by (simp add: js_sort_def)
qed

lemma find_filter: "find Q (filter P xs) = find (\<lambda>x. P x \<and> Q x) xs"
  by (induction xs) auto

lemma last_filter_index:
  "filter P xs \<noteq> [] \<Longrightarrow>
     \<exists>i<length xs. xs ! i = last (filter P xs) \<and> (\<forall>j<length xs. i < j \<longrightarrow> \<not> P (xs ! j))"
proof (induction xs rule: rev_induct)
  case Nil
  then show ?case by simp
next
  case (snoc x xs)
  show ?case
  proof (cases "P x")
    case True
    have "(xs @ [x]) ! length xs = last (filter P (xs @ [x]))" using True by simp
    moreover have "\<forall>j<length (xs @ [x]). length xs < j \<longrightarrow> \<not> P ((xs @ [x]) ! j)" by simp
    ultimately show ?thesis
      by (intro exI [of _ "length xs"]) simp
  next
    case False
    with snoc.prems have "filter P xs \<noteq> []" by simp
    from snoc.IH [OF this] obtain i where
      i: "i < length xs" "xs ! i = last (filter P xs)" "\<forall>j<length xs. i < j \<longrightarrow> \<not> P (xs ! j)" by blast
    have "\<forall>j<length (xs @ [x]). i < j \<longrightarrow> \<not> P ((xs @ [x]) ! j)"
    proof (intro allI impI)
      fix j assume "j < length (xs @ [x])" "i < j"
      then show "\<not> P ((xs @ [x]) ! j)"
        using i(3) False by (cases "j < length xs") (auto simp: nth_append)
    qed
    with i(1,2) False show ?thesis
      by (intro exI [of _ i]) (simp add: nth_append)
  qed
qed

lemma sorted_desc_last_filter:
  fixes key :: "'a \<Rightarrow> 'k::linorder"
  shows "xs \<noteq> [] \<Longrightarrow> last (filter (\<lambda>z. key z = key (last xs)) xs) = last xs"
  by (induction xs rule: rev_induct) simp_all

subsection \<open>The comparators\<close>

lemma sortFormatsBy_keys:
  assumes "\<forall>fn\<in>set fns. fn a \<noteq> NaN \<and> fn b \<noteq> NaN"
  shows "positive (sortFormatsBy a b fns) \<longleftrightarrow> keys fns a < keys fns b"
    and "sortFormatsBy a b fns = Num 0 \<longleftrightarrow> keys fns a = keys fns b"
  using assms
proof (induction fns)
  case Nil
  { case 1 show ?case by (simp add: keys_def) }
  { case 2 show ?case by (simp add: keys_def) }
next
  case (Cons fn fns)
  { case 1
    then obtain x y where xy: "fn a = Num x" "fn b = Num y"
      by (metis list.set_intros(1) number.exhaust)
    from 1 have "\<forall>fn\<in>set fns. fn a \<noteq> NaN \<and> fn b \<noteq> NaN" by simp
    with Cons.IH(1) have "positive (sortFormatsBy a b fns) \<longleftrightarrow> keys fns a < keys fns b" by blast
    with xy show ?case by (auto simp: keys_def Let_def) }
  { case 2
    then obtain x y where xy: "fn a = Num x" "fn b = Num y"
      by (metis list.set_intros(1) number.exhaust)
    from 2 have "\<forall>fn\<in>set fns. fn a \<noteq> NaN \<and> fn b \<noteq> NaN" by simp
    with Cons.IH(2) have "sortFormatsBy a b fns = Num 0 \<longleftrightarrow> keys fns a = keys fns b" by blast
    with xy show ?case by (auto simp: keys_def Let_def) }
qed

subsection \<open>Filtering and selection\<close>

lemma filterFormats_Inr:
  "filterFormats formats flt = Inr r \<Longrightarrow>
     \<exists>fn. r = filter (\<lambda>fmt. truthy_str (url fmt) \<and> fn fmt) formats"
  unfolding filterFormats_def
  by (cases flt) (auto split: if_splits sum.splits)

lemma filterAudio_eq: "filterAudio formats = filter (\<lambda>fmt. truthy_str (url fmt) \<and> hasAudio fmt) formats"
  by (simp add: filterAudio_def filterFormats_def)

lemma filterVideo_eq: "filterVideo formats = filter (\<lambda>fmt. truthy_str (url fmt) \<and> hasVideo fmt) formats"
  by (simp add: filterVideo_def filterFormats_def)

lemma dropLiveUnlessHLS_subset: "set (dropLiveUnlessHLS formats) \<subseteq> set formats"
  by (auto simp: dropLiveUnlessHLS_def)

lemma getFormat_mem: "getFormat formats it = Some f \<Longrightarrow> f \<in> set formats"
  by (auto simp: getFormat_def dest: find_mem)

lemma getFormatByQuality_mem: "getFormatByQuality q formats = Some f \<Longrightarrow> f \<in> set formats"
  by (cases q) (auto split: option.splits if_splits dest: getFormat_mem)

lemma pickHighestAudio_mem: "pickHighestAudio formats = Some f \<Longrightarrow> f \<in> set formats"
  unfolding pickHighestAudio_def Let_def
  by (auto split: option.splits dest!: find_mem simp: set_js_sort filterAudio_eq)

lemma pickHighestVideo_mem: "pickHighestVideo formats = Some f \<Longrightarrow> f \<in> set formats"
  unfolding pickHighestVideo_def Let_def
  by (auto split: option.splits dest!: find_mem simp: set_js_sort filterVideo_eq)

lemma selectByQuality_mem: "selectByQuality q formats = Some f \<Longrightarrow> f \<in> set formats"
  unfolding selectByQuality_def
  by (auto split: if_splits dest: first_elem_mem last_elem_mem pickHighestAudio_mem pickHighestVideo_mem
      getFormatByQuality_mem simp: set_js_sort filterAudio_eq filterVideo_eq dest!: last_elem_mem)

lemma sortFormatsBy_consistent:
  assumes nn: "\<forall>g\<in>set cands. \<forall>fn\<in>set fns. fn g \<noteq> NaN"
  shows "\<forall>x\<in>set cands. \<forall>y\<in>set cands. positive (sortFormatsBy x y fns) \<longleftrightarrow> keys fns x < keys fns y"
    and "\<forall>x\<in>set cands. \<forall>y\<in>set cands. sortFormatsBy x y fns = Num 0 \<longleftrightarrow> keys fns x = keys fns y"
proof -
  have nn2: "\<forall>fn\<in>set fns. fn x \<noteq> NaN \<and> fn y \<noteq> NaN" if "x \<in> set cands" "y \<in> set cands" for x y
    using nn that by simp
  show "\<forall>x\<in>set cands. \<forall>y\<in>set cands. positive (sortFormatsBy x y fns) \<longleftrightarrow> keys fns x < keys fns y"
    by (intro ballI sortFormatsBy_keys(1) nn2)
  show "\<forall>x\<in>set cands. \<forall>y\<in>set cands. sortFormatsBy x y fns = Num 0 \<longleftrightarrow> keys fns x = keys fns y"
    by (intro ballI sortFormatsBy_keys(2) nn2)
qed

lemma pick_highest_total:
  fixes sec :: "VideoFormat \<Rightarrow> int"
  assumes nn: "\<forall>g\<in>set cands. \<forall>fn\<in>set fns. fn g \<noteq> NaN" and ne: "cands \<noteq> []"
  shows "\<exists>i<length cands.
      (case first_elem (js_sort (\<lambda>a b. sortFormatsBy a b fns) cands) of
         None \<Rightarrow> None
       | Some best \<Rightarrow>
           find (\<lambda>f. Some (sec f) = first_elem (js_sort num_cmp (map sec
                  (filter (\<lambda>f. sortFormatsBy best f fns = Num 0) (js_sort (\<lambda>a b. sortFormatsBy a b fns) cands)))))
             (filter (\<lambda>f. sortFormatsBy best f fns = Num 0) (js_sort (\<lambda>a b. sortFormatsBy a b fns) cands)))
        = Some (cands ! i)
      \<and> (\<forall>g\<in>set cands. keys fns g \<le> keys fns (cands ! i))
      \<and> (\<forall>g\<in>set cands. keys fns g = keys fns (cands ! i) \<longrightarrow> sec (cands ! i) \<le> sec g)
      \<and> (\<forall>j<i. keys fns (cands ! j) = keys fns (cands ! i) \<longrightarrow> sec (cands ! j) \<noteq> sec (cands ! i))"
proof -
  let ?cmp = "\<lambda>a b. sortFormatsBy a b fns"
  let ?sorted = "js_sort ?cmp cands"
  note pos = sortFormatsBy_consistent(1) [OF nn] and zero = sortFormatsBy_consistent(2) [OF nn]
  have srt: "sorted_wrt (\<lambda>a b. keys fns b \<le> keys fns a) ?sorted"
    using pos by (rule js_sort_sorted [where key = "keys fns"])
  from ne have "set ?sorted \<noteq> {}" by (simp add: set_js_sort)
  then obtain best where best: "first_elem ?sorted = Some best"
    by (cases ?sorted) auto
  have bmem: "best \<in> set cands"
    using first_elem_mem [OF best] by (simp add: set_js_sort)
  define K where "K = keys fns best"
  have bmax: "keys fns g \<le> K" if "g \<in> set cands" for g
    using sorted_first_max [where key = "keys fns", OF srt best] that by (simp add: set_js_sort K_def)
  let ?T = "filter (\<lambda>z. keys fns z = K) cands"
  have "filter (\<lambda>f. sortFormatsBy best f fns = Num 0) ?sorted = filter (\<lambda>z. keys fns z = K) ?sorted"
  proof (rule filter_cong [OF refl])
    fix f assume "f \<in> set ?sorted"
    then have "f \<in> set cands" by (simp add: set_js_sort)
    with zero bmem show "(sortFormatsBy best f fns = Num 0) = (keys fns f = K)"
      unfolding K_def by auto
  qed
  also have "\<dots> = ?T"
    using pos by (rule js_sort_stable [where key = "keys fns"])
  finally have ties: "filter (\<lambda>f. sortFormatsBy best f fns = Num 0) ?sorted = ?T" .
  from bmem have bT: "best \<in> set ?T" by (simp add: K_def)
  then have "set (js_sort num_cmp (map sec ?T)) \<noteq> {}" by (auto simp: set_js_sort)
  then obtain m where m: "first_elem (js_sort num_cmp (map sec ?T)) = Some m"
    by (cases "js_sort num_cmp (map sec ?T)") auto
  from first_elem_mem [OF m] have "m \<in> set (map sec ?T)" by (simp add: set_js_sort)
  then obtain x where x: "x \<in> set cands" "keys fns x = K" "sec x = m" by auto
  have mmin: "m \<le> sec g" if "g \<in> set cands" "keys fns g = K" for g
  proof -
    from that have "sec g \<in> set (map sec ?T)" by simp
    from num_sort_first_min [OF m this] show ?thesis .
  qed
  have pick: "(case first_elem ?sorted of
         None \<Rightarrow> None
       | Some best \<Rightarrow>
           find (\<lambda>f. Some (sec f) = first_elem (js_sort num_cmp (map sec
                  (filter (\<lambda>f. sortFormatsBy best f fns = Num 0) ?sorted))))
             (filter (\<lambda>f. sortFormatsBy best f fns = Num 0) ?sorted))
        = find (\<lambda>z. keys fns z = K \<and> sec z = m) cands"
    by (simp add: best ties m find_filter eq_commute [of m])
  from x have "find (\<lambda>z. keys fns z = K \<and> sec z = m) cands \<noteq> None"
    by (auto simp: find_None_iff)
  then obtain f where f: "find (\<lambda>z. keys fns z = K \<and> sec z = m) cands = Some f" by blast
  then obtain i where i: "i < length cands" "keys fns (cands ! i) = K" "sec (cands ! i) = m"
      "f = cands ! i" "\<forall>j<i. \<not> (keys fns (cands ! j) = K \<and> sec (cands ! j) = m)"
    unfolding find_Some_iff by blast
  show ?thesis
  proof (intro exI [of _ i] conjI)
    show "i < length cands" by (rule i(1))
    show "(case first_elem ?sorted of
         None \<Rightarrow> None
       | Some best \<Rightarrow>
           find (\<lambda>f. Some (sec f) = first_elem (js_sort num_cmp (map sec
                  (filter (\<lambda>f. sortFormatsBy best f fns = Num 0) ?sorted))))
             (filter (\<lambda>f. sortFormatsBy best f fns = Num 0) ?sorted))
        = Some (cands ! i)"
      using pick f i(4) by simp
    show "\<forall>g\<in>set cands. keys fns g \<le> keys fns (cands ! i)"
      using bmax i(2) by simp
    show "\<forall>g\<in>set cands. keys fns g = keys fns (cands ! i) \<longrightarrow> sec (cands ! i) \<le> sec g"
      using mmin i(2,3) by simp
    show "\<forall>j<i. keys fns (cands ! j) = keys fns (cands ! i) \<longrightarrow> sec (cands ! j) \<noteq> sec (cands ! i)"
      using i(2,3,5) by simp
  qed
qed

lemma pick_lowest_total:
  assumes nn: "\<forall>g\<in>set cands. \<forall>fn\<in>set fns. fn g \<noteq> NaN" and ne: "cands \<noteq> []"
  shows "\<exists>i<length cands.
      last_elem (js_sort (\<lambda>a b. sortFormatsBy a b fns) cands) = Some (cands ! i)
      \<and> (\<forall>g\<in>set cands. keys fns (cands ! i) \<le> keys fns g)
      \<and> (\<forall>j<length cands. i < j \<longrightarrow> keys fns (cands ! j) \<noteq> keys fns (cands ! i))"
proof -
  let ?cmp = "\<lambda>a b. sortFormatsBy a b fns"
  let ?sorted = "js_sort ?cmp cands"
  note pos = sortFormatsBy_consistent(1) [OF nn]
  have srt: "sorted_wrt (\<lambda>a b. keys fns b \<le> keys fns a) ?sorted"
    using pos by (rule js_sort_sorted [where key = "keys fns"])
  from ne have sne: "?sorted \<noteq> []" using set_js_sort [of ?cmp cands] by auto
  define l where "l = last ?sorted"
  from sne have le: "last_elem ?sorted = Some l" by (simp add: last_elem_def l_def)
  have lmem: "l \<in> set cands" using last_elem_mem [OF le] by (simp add: set_js_sort)
  have lmin: "keys fns l \<le> keys fns g" if "g \<in> set cands" for g
    using sorted_last_min [where key = "keys fns", OF srt le] that by (simp add: set_js_sort)
  have "last (filter (\<lambda>z. keys fns z = keys fns l) ?sorted) = l"
    unfolding l_def using sne by (rule sorted_desc_last_filter [where key = "keys fns"])
  moreover have "filter (\<lambda>z. keys fns z = keys fns l) ?sorted = filter (\<lambda>z. keys fns z = keys fns l) cands"
    using pos by (rule js_sort_stable [where key = "keys fns"])
  ultimately have ll: "last (filter (\<lambda>z. keys fns z = keys fns l) cands) = l" by simp
  from lmem have "filter (\<lambda>z. keys fns z = keys fns l) cands \<noteq> []"
    by (auto simp: filter_empty_conv)
  from last_filter_index [OF this] ll obtain i where
    i: "i < length cands" "cands ! i = l" "\<forall>j<length cands. i < j \<longrightarrow> keys fns (cands ! j) \<noteq> keys fns l"
    by auto
  show ?thesis
    using i le lmin by (intro exI [of _ i]) simp
qed

lemma kept_audio:
  "filterAudio (dropLiveUnlessHLS formats)
     = filter (\<lambda>g. truthy_str (url g) \<and> hasAudio g \<and> ((\<exists>h\<in>set formats. isHLS h) \<longrightarrow> isHLS g \<or> \<not> isLive g)) formats"
  by (auto simp: filterAudio_eq dropLiveUnlessHLS_def list_ex_iff intro: filter_cong)

lemma kept_video:
  "filterVideo (dropLiveUnlessHLS formats)
     = filter (\<lambda>g. truthy_str (url g) \<and> hasVideo g \<and> ((\<exists>h\<in>set formats. isHLS h) \<longrightarrow> isHLS g \<or> \<not> isLive g)) formats"
  by (auto simp: filterVideo_eq dropLiveUnlessHLS_def list_ex_iff intro: filter_cong)

lemma audio_keys:
  "keys [getAudioBitrate, getAudioEncodingRank] g
     = [opt_or_zero (audioBitrate g), findIndex (codecs_includes g) audioEncodingRanks]"
  by (simp add: keys_def getAudioBitrate_def getAudioEncodingRank_def)

lemma video_keys:
  "keys [qualityLabelInt, getVideoBitrate, getVideoEncodingRank] g
     = [or_zero (parseInt (str_or (qualityLabel g) ''0'')), opt_or_zero (bitrate g),
        findIndex (codecs_includes g) videoEncodingRanks]"
  by (simp add: keys_def qualityLabelInt_def getVideoBitrate_def getVideoEncodingRank_def)

lemma chooseFormat_mode:
  "s \<noteq> [] \<Longrightarrow> chooseFormat formats (qualityOnly (Some (QStr s)))
     = (case selectByQuality (QStr s) (dropLiveUnlessHLS formats) of
          None \<Rightarrow> Inl (NoSuchFormat (QStr s)) | Some f \<Rightarrow> Inr f)"
  by (simp add: chooseFormat_def qualityOnly_def quality_or_highest_def Let_def)

lemma highestaudio_total:
  assumes A: "A = filterAudio (dropLiveUnlessHLS formats)"
  shows "(A = [] \<longrightarrow> chooseFormat formats (qualityOnly (Some (QStr ''highestaudio'')))
                       = Inl (NoSuchFormat (QStr ''highestaudio'')))
    \<and> (A \<noteq> [] \<longrightarrow> (\<exists>i<length A.
          chooseFormat formats (qualityOnly (Some (QStr ''highestaudio''))) = Inr (A ! i)
        \<and> (\<forall>g\<in>set A. keys [getAudioBitrate, getAudioEncodingRank] g
                          \<le> keys [getAudioBitrate, getAudioEncodingRank] (A ! i))
        \<and> (\<forall>g\<in>set A. keys [getAudioBitrate, getAudioEncodingRank] g
                          = keys [getAudioBitrate, getAudioEncodingRank] (A ! i)
               \<longrightarrow> or_zero (qualityLabelInt (A ! i)) \<le> or_zero (qualityLabelInt g))
        \<and> (\<forall>j<i. keys [getAudioBitrate, getAudioEncodingRank] (A ! j)
                     = keys [getAudioBitrate, getAudioEncodingRank] (A ! i)
               \<longrightarrow> or_zero (qualityLabelInt (A ! j)) \<noteq> or_zero (qualityLabelInt (A ! i)))))"
proof -
  let ?fns = "[getAudioBitrate, getAudioEncodingRank]"
  have eq: "sortFormatsByAudio = (\<lambda>a b. sortFormatsBy a b ?fns)"
    by (intro ext) (simp add: sortFormatsByAudio_def)
  have c: "chooseFormat formats (qualityOnly (Some (QStr ''highestaudio'')))
     = (case pickHighestAudio (dropLiveUnlessHLS formats) of
          None \<Rightarrow> Inl (NoSuchFormat (QStr ''highestaudio'')) | Some f \<Rightarrow> Inr f)"
    by (simp add: chooseFormat_mode selectByQuality_def)
  have nn: "\<forall>g\<in>set A. \<forall>fn\<in>set ?fns. fn g \<noteq> NaN"
    by (simp add: getAudioBitrate_def getAudioEncodingRank_def)
  have e: "A = [] \<longrightarrow> chooseFormat formats (qualityOnly (Some (QStr ''highestaudio'')))
                       = Inl (NoSuchFormat (QStr ''highestaudio''))"
    by (simp add: c pickHighestAudio_def A [symmetric] js_sort_def)
  have n: "A \<noteq> [] \<longrightarrow> (\<exists>i<length A.
          chooseFormat formats (qualityOnly (Some (QStr ''highestaudio''))) = Inr (A ! i)
        \<and> (\<forall>g\<in>set A. keys ?fns g \<le> keys ?fns (A ! i))
        \<and> (\<forall>g\<in>set A. keys ?fns g = keys ?fns (A ! i)
               \<longrightarrow> or_zero (qualityLabelInt (A ! i)) \<le> or_zero (qualityLabelInt g))
        \<and> (\<forall>j<i. keys ?fns (A ! j) = keys ?fns (A ! i)
               \<longrightarrow> or_zero (qualityLabelInt (A ! j)) \<noteq> or_zero (qualityLabelInt (A ! i))))"
  proof
    assume ne: "A \<noteq> []"
    from pick_highest_total [where sec = "\<lambda>f. or_zero (qualityLabelInt f)", OF nn ne]
    obtain i where i: "i < length A"
      "pickHighestAudio (dropLiveUnlessHLS formats) = Some (A ! i)"
      "\<forall>g\<in>set A. keys ?fns g \<le> keys ?fns (A ! i)"
      "\<forall>g\<in>set A. keys ?fns g = keys ?fns (A ! i)
               \<longrightarrow> or_zero (qualityLabelInt (A ! i)) \<le> or_zero (qualityLabelInt g)"
      "\<forall>j<i. keys ?fns (A ! j) = keys ?fns (A ! i)
               \<longrightarrow> or_zero (qualityLabelInt (A ! j)) \<noteq> or_zero (qualityLabelInt (A ! i))"
      unfolding pickHighestAudio_def Let_def eq A [symmetric] by blast
    from i(2) have "chooseFormat formats (qualityOnly (Some (QStr ''highestaudio''))) = Inr (A ! i)"
      by (simp add: c)
    with i(1,3,4,5) show "\<exists>i<length A.
          chooseFormat formats (qualityOnly (Some (QStr ''highestaudio''))) = Inr (A ! i)
        \<and> (\<forall>g\<in>set A. keys ?fns g \<le> keys ?fns (A ! i))
        \<and> (\<forall>g\<in>set A. keys ?fns g = keys ?fns (A ! i)
               \<longrightarrow> or_zero (qualityLabelInt (A ! i)) \<le> or_zero (qualityLabelInt g))
        \<and> (\<forall>j<i. keys ?fns (A ! j) = keys ?fns (A ! i)
               \<longrightarrow> or_zero (qualityLabelInt (A ! j)) \<noteq> or_zero (qualityLabelInt (A ! i)))"
      by blast
  qed
  from e n show ?thesis by (rule conjI)
qed

lemma highestvideo_total:
  assumes V: "V = filterVideo (dropLiveUnlessHLS formats)"
  shows "(V = [] \<longrightarrow> chooseFormat formats (qualityOnly (Some (QStr ''highestvideo'')))
                       = Inl (NoSuchFormat (QStr ''highestvideo'')))
    \<and> (V \<noteq> [] \<and> (\<forall>g\<in>set V. qualityLabelInt g \<noteq> NaN) \<longrightarrow> (\<exists>i<length V.
          chooseFormat formats (qualityOnly (Some (QStr ''highestvideo''))) = Inr (V ! i)
        \<and> (\<forall>g\<in>set V. keys [qualityLabelInt, getVideoBitrate, getVideoEncodingRank] g
                          \<le> keys [qualityLabelInt, getVideoBitrate, getVideoEncodingRank] (V ! i))
        \<and> (\<forall>g\<in>set V. keys [qualityLabelInt, getVideoBitrate, getVideoEncodingRank] g
                          = keys [qualityLabelInt, getVideoBitrate, getVideoEncodingRank] (V ! i)
               \<longrightarrow> opt_or_zero (audioBitrate (V ! i)) \<le> opt_or_zero (audioBitrate g))
        \<and> (\<forall>j<i. keys [qualityLabelInt, getVideoBitrate, getVideoEncodingRank] (V ! j)
                     = keys [qualityLabelInt, getVideoBitrate, getVideoEncodingRank] (V ! i)
               \<longrightarrow> opt_or_zero (audioBitrate (V ! j)) \<noteq> opt_or_zero (audioBitrate (V ! i)))))"
proof -
  let ?fns = "[qualityLabelInt, getVideoBitrate, getVideoEncodingRank]"
  have eq: "sortFormatsByVideo = (\<lambda>a b. sortFormatsBy a b ?fns)"
    by (intro ext) (simp add: sortFormatsByVideo_def)
  have c: "chooseFormat formats (qualityOnly (Some (QStr ''highestvideo'')))
     = (case pickHighestVideo (dropLiveUnlessHLS formats) of
          None \<Rightarrow> Inl (NoSuchFormat (QStr ''highestvideo'')) | Some f \<Rightarrow> Inr f)"
    by (simp add: chooseFormat_mode selectByQuality_def)
  have e: "V = [] \<longrightarrow> chooseFormat formats (qualityOnly (Some (QStr ''highestvideo'')))
                       = Inl (NoSuchFormat (QStr ''highestvideo''))"
    by (simp add: c pickHighestVideo_def V [symmetric] js_sort_def)
  have n: "V \<noteq> [] \<and> (\<forall>g\<in>set V. qualityLabelInt g \<noteq> NaN) \<longrightarrow> (\<exists>i<length V.
          chooseFormat formats (qualityOnly (Some (QStr ''highestvideo''))) = Inr (V ! i)
        \<and> (\<forall>g\<in>set V. keys ?fns g \<le> keys ?fns (V ! i))
        \<and> (\<forall>g\<in>set V. keys ?fns g = keys ?fns (V ! i)
               \<longrightarrow> opt_or_zero (audioBitrate (V ! i)) \<le> opt_or_zero (audioBitrate g))
        \<and> (\<forall>j<i. keys ?fns (V ! j) = keys ?fns (V ! i)
               \<longrightarrow> opt_or_zero (audioBitrate (V ! j)) \<noteq> opt_or_zero (audioBitrate (V ! i))))"
  proof
    assume h: "V \<noteq> [] \<and> (\<forall>g\<in>set V. qualityLabelInt g \<noteq> NaN)"
    then have ne: "V \<noteq> []" and nn: "\<forall>g\<in>set V. \<forall>fn\<in>set ?fns. fn g \<noteq> NaN"
      by (simp_all add: getVideoBitrate_def getVideoEncodingRank_def)
    from pick_highest_total [where sec = "\<lambda>f. opt_or_zero (audioBitrate f)", OF nn ne]
    obtain i where i: "i < length V"
      "pickHighestVideo (dropLiveUnlessHLS formats) = Some (V ! i)"
      "\<forall>g\<in>set V. keys ?fns g \<le> keys ?fns (V ! i)"
      "\<forall>g\<in>set V. keys ?fns g = keys ?fns (V ! i)
               \<longrightarrow> opt_or_zero (audioBitrate (V ! i)) \<le> opt_or_zero (audioBitrate g)"
      "\<forall>j<i. keys ?fns (V ! j) = keys ?fns (V ! i)
               \<longrightarrow> opt_or_zero (audioBitrate (V ! j)) \<noteq> opt_or_zero (audioBitrate (V ! i))"
      unfolding pickHighestVideo_def Let_def eq V [symmetric] by blast
    from i(2) have "chooseFormat formats (qualityOnly (Some (QStr ''highestvideo''))) = Inr (V ! i)"
      by (simp add: c)
    with i(1,3,4,5) show "\<exists>i<length V.
          chooseFormat formats (qualityOnly (Some (QStr ''highestvideo''))) = Inr (V ! i)
        \<and> (\<forall>g\<in>set V. keys ?fns g \<le> keys ?fns (V ! i))
        \<and> (\<forall>g\<in>set V. keys ?fns g = keys ?fns (V ! i)
               \<longrightarrow> opt_or_zero (audioBitrate (V ! i)) \<le> opt_or_zero (audioBitrate g))
        \<and> (\<forall>j<i. keys ?fns (V ! j) = keys ?fns (V ! i)
               \<longrightarrow> opt_or_zero (audioBitrate (V ! j)) \<noteq> opt_or_zero (audioBitrate (V ! i)))"
      by blast
  qed
  from e n show ?thesis by (rule conjI)
qed

lemma lowestaudio_total:
  assumes A: "A = filterAudio (dropLiveUnlessHLS formats)"
  shows "(A = [] \<longrightarrow> chooseFormat formats (qualityOnly (Some (QStr ''lowestaudio'')))
                       = Inl (NoSuchFormat (QStr ''lowestaudio'')))
    \<and> (A \<noteq> [] \<longrightarrow> (\<exists>i<length A.
          chooseFormat formats (qualityOnly (Some (QStr ''lowestaudio''))) = Inr (A ! i)
        \<and> (\<forall>g\<in>set A. keys [getAudioBitrate, getAudioEncodingRank] (A ! i)
                          \<le> keys [getAudioBitrate, getAudioEncodingRank] g)
        \<and> (\<forall>j<length A. i < j \<longrightarrow> keys [getAudioBitrate, getAudioEncodingRank] (A ! j)
                          \<noteq> keys [getAudioBitrate, getAudioEncodingRank] (A ! i))))"
proof -
  let ?fns = "[getAudioBitrate, getAudioEncodingRank]"
  have eq: "sortFormatsByAudio = (\<lambda>a b. sortFormatsBy a b ?fns)"
    by (intro ext) (simp add: sortFormatsByAudio_def)
  have c: "chooseFormat formats (qualityOnly (Some (QStr ''lowestaudio'')))
     = (case last_elem (js_sort (\<lambda>a b. sortFormatsBy a b ?fns) A) of
          None \<Rightarrow> Inl (NoSuchFormat (QStr ''lowestaudio'')) | Some f \<Rightarrow> Inr f)"
    by (simp add: chooseFormat_mode selectByQuality_def eq A)
  have nn: "\<forall>g\<in>set A. \<forall>fn\<in>set ?fns. fn g \<noteq> NaN"
    by (simp add: getAudioBitrate_def getAudioEncodingRank_def)
  have e: "A = [] \<longrightarrow> chooseFormat formats (qualityOnly (Some (QStr ''lowestaudio'')))
                       = Inl (NoSuchFormat (QStr ''lowestaudio''))"
    by (simp add: c js_sort_def last_elem_def)
  have n: "A \<noteq> [] \<longrightarrow> (\<exists>i<length A.
          chooseFormat formats (qualityOnly (Some (QStr ''lowestaudio''))) = Inr (A ! i)
        \<and> (\<forall>g\<in>set A. keys ?fns (A ! i) \<le> keys ?fns g)
        \<and> (\<forall>j<length A. i < j \<longrightarrow> keys ?fns (A ! j) \<noteq> keys ?fns (A ! i)))"
  proof
    assume ne: "A \<noteq> []"
    from pick_lowest_total [OF nn ne] obtain i where i: "i < length A"
      "last_elem (js_sort (\<lambda>a b. sortFormatsBy a b ?fns) A) = Some (A ! i)"
      "\<forall>g\<in>set A. keys ?fns (A ! i) \<le> keys ?fns g"
      "\<forall>j<length A. i < j \<longrightarrow> keys ?fns (A ! j) \<noteq> keys ?fns (A ! i)"
      by blast
    from i(2) have "chooseFormat formats (qualityOnly (Some (QStr ''lowestaudio''))) = Inr (A ! i)"
      by (simp add: c)
    with i(1,3,4) show "\<exists>i<length A.
          chooseFormat formats (qualityOnly (Some (QStr ''lowestaudio''))) = Inr (A ! i)
        \<and> (\<forall>g\<in>set A. keys ?fns (A ! i) \<le> keys ?fns g)
        \<and> (\<forall>j<length A. i < j \<longrightarrow> keys ?fns (A ! j) \<noteq> keys ?fns (A ! i))"
      by blast
  qed
  from e n show ?thesis by (rule conjI)
qed

lemma lowestvideo_total:
  assumes V: "V = filterVideo (dropLiveUnlessHLS formats)"
  shows "(V = [] \<longrightarrow> chooseFormat formats (qualityOnly (Some (QStr ''lowestvideo'')))
                       = Inl (NoSuchFormat (QStr ''lowestvideo'')))
    \<and> (V \<noteq> [] \<and> (\<forall>g\<in>set V. qualityLabelInt g \<noteq> NaN) \<longrightarrow> (\<exists>i<length V.
          chooseFormat formats (qualityOnly (Some (QStr ''lowestvideo''))) = Inr (V ! i)
        \<and> (\<forall>g\<in>set V. keys [qualityLabelInt, getVideoBitrate, getVideoEncodingRank] (V ! i)
                          \<le> keys [qualityLabelInt, getVideoBitrate, getVideoEncodingRank] g)
        \<and> (\<forall>j<length V. i < j \<longrightarrow> keys [qualityLabelInt, getVideoBitrate, getVideoEncodingRank] (V ! j)
                          \<noteq> keys [qualityLabelInt, getVideoBitrate, getVideoEncodingRank] (V ! i))))"
proof -
  let ?fns = "[qualityLabelInt, getVideoBitrate, getVideoEncodingRank]"
  have eq: "sortFormatsByVideo = (\<lambda>a b. sortFormatsBy a b ?fns)"
    by (intro ext) (simp add: sortFormatsByVideo_def)
  have c: "chooseFormat formats (qualityOnly (Some (QStr ''lowestvideo'')))
     = (case last_elem (js_sort (\<lambda>a b. sortFormatsBy a b ?fns) V) of
          None \<Rightarrow> Inl (NoSuchFormat (QStr ''lowestvideo'')) | Some f \<Rightarrow> Inr f)"
    by (simp add: chooseFormat_mode selectByQuality_def eq V)
  have e: "V = [] \<longrightarrow> chooseFormat formats (qualityOnly (Some (QStr ''lowestvideo'')))
                       = Inl (NoSuchFormat (QStr ''lowestvideo''))"
    by (simp add: c js_sort_def last_elem_def)
  have n: "V \<noteq> [] \<and> (\<forall>g\<in>set V. qualityLabelInt g \<noteq> NaN) \<longrightarrow> (\<exists>i<length V.
          chooseFormat formats (qualityOnly (Some (QStr ''lowestvideo''))) = Inr (V ! i)
        \<and> (\<forall>g\<in>set V. keys ?fns (V ! i) \<le> keys ?fns g)
        \<and> (\<forall>j<length V. i < j \<longrightarrow> keys ?fns (V ! j) \<noteq> keys ?fns (V ! i)))"
  proof
    assume h: "V \<noteq> [] \<and> (\<forall>g\<in>set V. qualityLabelInt g \<noteq> NaN)"
    then have ne: "V \<noteq> []" and nn: "\<forall>g\<in>set V. \<forall>fn\<in>set ?fns. fn g \<noteq> NaN"
      by (simp_all add: getVideoBitrate_def getVideoEncodingRank_def)
    from pick_lowest_total [OF nn ne] obtain i where i: "i < length V"
      "last_elem (js_sort (\<lambda>a b. sortFormatsBy a b ?fns) V) = Some (V ! i)"
      "\<forall>g\<in>set V. keys ?fns (V ! i) \<le> keys ?fns g"
      "\<forall>j<length V. i < j \<longrightarrow> keys ?fns (V ! j) \<noteq> keys ?fns (V ! i)"
      by blast
    from i(2) have "chooseFormat formats (qualityOnly (Some (QStr ''lowestvideo''))) = Inr (V ! i)"
      by (simp add: c)
    with i(1,3,4) show "\<exists>i<length V.
          chooseFormat formats (qualityOnly (Some (QStr ''lowestvideo''))) = Inr (V ! i)
        \<and> (\<forall>g\<in>set V. keys ?fns (V ! i) \<le> keys ?fns g)
        \<and> (\<forall>j<length V. i < j \<longrightarrow> keys ?fns (V ! j) \<noteq> keys ?fns (V ! i))"
      by blast
  qed
  from e n show ?thesis by (rule conjI)
qed

subsection \<open>Claims on format selection\<close>

text \<open>
  C9. Every format returned by \<open>filterFormats\<close>, for a named filter or a custom predicate,
  has a non-empty \<open>url\<close>; a format of the input whose \<open>url\<close> is missing or empty is not
  in the result, whatever the predicate says about it.
\<close>

theorem filterFormats_url_nonempty:
  assumes "filterFormats formats flt = Inr r"
  shows "(\<forall>f\<in>set r. \<exists>u. url f = Some u \<and> u \<noteq> [])
       \<and> (\<forall>f\<in>set formats. \<not> truthy_str (url f) \<longrightarrow> f \<notin> set r)"
proof -
  from filterFormats_Inr [OF assms] obtain fn where
    r: "r = filter (\<lambda>fmt. truthy_str (url fmt) \<and> fn fmt) formats" by blast
  have "\<exists>u. url f = Some u \<and> u \<noteq> []" if "truthy_str (url f)" for f
    using that by (cases "url f") auto
  with r show ?thesis by auto
qed

theorem filterFormats_url_nonempty_witness:
  "filterFormats [scenario_fmt18, url_fmt140] (FilterFn (\<lambda>f. True)) = Inr [url_fmt140]
   \<and> (\<exists>u. url url_fmt140 = Some u \<and> u \<noteq> [])
   \<and> scenario_fmt18 \<notin> set [url_fmt140]"
proof -
  have h: "filterFormats [scenario_fmt18, url_fmt140] (FilterFn (\<lambda>f. True)) = Inr [url_fmt140]"
    by (simp add: filterFormats_def scenario_fmt18_def url_fmt140_def scenario_fmt140_def)
  have n: "\<not> truthy_str (url scenario_fmt18)"
    by (simp add: scenario_fmt18_def)
  from filterFormats_url_nonempty [OF h] n h show ?thesis by simp
qed

text \<open>
  C2. With only a quality given, \<open>chooseFormat\<close> returns an element of the input list or
  raises \<open>No such format found: q\<close>, where \<open>q\<close> is the quality the switch ran on: the
  requested one, or \<open>highest\<close> when the requested one is absent or falsy (\<open>''\<close>, \<open>0\<close>).
  No other error and no format from outside the list is possible.
\<close>

theorem chooseFormat_quality_member_or_error:
  "((\<exists>f\<in>set formats. chooseFormat formats (qualityOnly q) = Inr f)
     \<or> chooseFormat formats (qualityOnly q) = Inl (NoSuchFormat (quality_or_highest q)))
   \<and> (\<forall>v. q = Some v \<and> truthy_quality v \<longrightarrow> quality_or_highest q = v)"
proof
  show "(\<exists>f\<in>set formats. chooseFormat formats (qualityOnly q) = Inr f)
     \<or> chooseFormat formats (qualityOnly q) = Inl (NoSuchFormat (quality_or_highest q))"
  proof (cases "selectByQuality (quality_or_highest q) (dropLiveUnlessHLS formats)")
    case None
    then show ?thesis by (simp add: chooseFormat_def qualityOnly_def)
  next
    case (Some f)
    then have "f \<in> set formats"
      using selectByQuality_mem dropLiveUnlessHLS_subset by blast
    with Some show ?thesis by (simp add: chooseFormat_def qualityOnly_def)
  qed
  show "\<forall>v. q = Some v \<and> truthy_quality v \<longrightarrow> quality_or_highest q = v"
    by (simp add: quality_or_highest_def)
qed

theorem chooseFormat_quality_member_or_error_witness:
  "chooseFormat [resolved_fmt18, resolved_fmt140] (qualityOnly (Some (QArr [INum (Num 22), IStr ''140''])))
     = Inr resolved_fmt140
   \<and> chooseFormat [resolved_fmt18, resolved_fmt140] (qualityOnly (Some (QNum (Num 22))))
     = Inl (NoSuchFormat (QNum (Num 22)))
   \<and> quality_or_highest (Some (QNum (Num 22))) = QNum (Num 22)"
proof -
  have a: "chooseFormat [resolved_fmt18, resolved_fmt140] (qualityOnly (Some (QArr [INum (Num 22), IStr ''140''])))
     = Inr resolved_fmt140"
    by code_simp
  have b: "\<not> (\<exists>f\<in>set [resolved_fmt18, resolved_fmt140].
      chooseFormat [resolved_fmt18, resolved_fmt140] (qualityOnly (Some (QNum (Num 22)))) = Inr f)"
    by code_simp
  have t: "truthy_quality (QNum (Num 22))" by simp
  from chooseFormat_quality_member_or_error
    [of "[resolved_fmt18, resolved_fmt140]" "Some (QNum (Num 22))"] b t
  have "chooseFormat [resolved_fmt18, resolved_fmt140] (qualityOnly (Some (QNum (Num 22))))
     = Inl (NoSuchFormat (QNum (Num 22))) \<and> quality_or_highest (Some (QNum (Num 22))) = QNum (Num 22)"
    by metis
  with a show ?thesis by simp
qed

text \<open>
  C6, as stated, fails. On the literal scenario list the two formats have no \<open>url\<close>, so the
  audio filter drops both and \<open>chooseFormat\<close> raises; and when both carry a URL but neither
  a quality label, the two formats tie on audio and on the parsed quality label, and the
  first of them, itag 18, is returned. The lowest modes break no tie by the other
  dimension: of two formats that tie on audio, \<open>lowestaudio\<close> returns the second, whose
  quality label is the greater one; and of two formats that tie on video, \<open>lowestvideo\<close>
  returns the second, whose audio bitrate is the greater one.
\<close>
theorem chooseFormat_highestaudio_scenario_counterexample:
  "chooseFormat [scenario_fmt18, scenario_fmt140] (qualityOnly (Some (QStr ''highestaudio'')))
     = Inl (NoSuchFormat (QStr ''highestaudio''))
   \<and> chooseFormat [url_fmt18, url_fmt140] (qualityOnly (Some (QStr ''highestaudio'')))
     = Inr url_fmt18
   \<and> itag url_fmt18 = 18
   \<and> chooseFormat [resolved_fmt18, resolved_fmt22] (qualityOnly (Some (QStr ''lowestaudio'')))
     = Inr resolved_fmt22
   \<and> sortFormatsByAudio resolved_fmt18 resolved_fmt22 = Num 0
   \<and> qualityLabelInt resolved_fmt18 = Num 360 \<and> qualityLabelInt resolved_fmt22 = Num 720
   \<and> chooseFormat [tied_video_96, tied_video_128] (qualityOnly (Some (QStr ''lowestvideo'')))
     = Inr tied_video_128
   \<and> sortFormatsByVideo tied_video_96 tied_video_128 = Num 0
   \<and> audioBitrate tied_video_96 = Some (Num 96) \<and> audioBitrate tied_video_128 = Some (Num 128)"
  by code_simp

text \<open>
  C6, amended. On the scenario list with URLs and with the quality label of the video
  format, \<open>highestaudio\<close> returns itag 140. In general, let \<open>A\<close> be the formats of the list,
  in their order, that have a non-empty URL and audio, and \<open>V\<close> those that have a non-empty
  URL and video, in both cases without the live formats that are not HLS when the list
  holds an HLS format. The audio key of a format is its audio bitrate (0 when absent)
  followed by the rank of its audio codec, the video key is its parsed quality label
  followed by its bitrate and the rank of its video codec; keys are compared as lists,
  the first difference deciding. The audio modes raise \<open>No such format found\<close> when
  \<open>A\<close> is empty and the video modes when \<open>V\<close> is empty. Otherwise \<open>highestaudio\<close>
  returns the format of \<open>A\<close> with the greatest audio key, among those the one with the
  least parsed quality label, and among those the first of the list; \<open>lowestaudio\<close> returns
  the format of \<open>A\<close> with the least audio key, and among those the last of the list,
  whatever its quality label. When the quality label of every format of \<open>V\<close> parses as an
  integer, \<open>highestvideo\<close> returns the format of \<open>V\<close> with the greatest video key, among
  those the one with the least audio bitrate, and among those the first of the list;
  \<open>lowestvideo\<close> returns the format of \<open>V\<close> with the least video key, and among those the
  last of the list, whatever its audio bitrate.
\<close>
theorem chooseFormat_audio_video_modes:
  assumes live: "live_ok = (\<lambda>g. (\<exists>h\<in>set formats. isHLS h) \<longrightarrow> isHLS g \<or> \<not> isLive g)"
    and A: "A = filter (\<lambda>g. truthy_str (url g) \<and> hasAudio g \<and> live_ok g) formats"
    and V: "V = filter (\<lambda>g. truthy_str (url g) \<and> hasVideo g \<and> live_ok g) formats"
    and lab: "lab = (\<lambda>g. or_zero (parseInt (str_or (qualityLabel g) ''0'')))"
    and akey: "akey = (\<lambda>g. [opt_or_zero (audioBitrate g), findIndex (codecs_includes g) audioEncodingRanks])"
    and vkey: "vkey = (\<lambda>g. [lab g, opt_or_zero (bitrate g), findIndex (codecs_includes g) videoEncodingRanks])"
    and sel: "pick = (\<lambda>mode. chooseFormat formats (qualityOnly (Some (QStr mode))))"
  shows "chooseFormat [resolved_fmt18, resolved_fmt140] (qualityOnly (Some (QStr ''highestaudio'')))
           = Inr resolved_fmt140
    \<and> itag resolved_fmt140 = 140
    \<and> (A = [] \<longrightarrow> pick ''highestaudio'' = Inl (NoSuchFormat (QStr ''highestaudio''))
                 \<and> pick ''lowestaudio'' = Inl (NoSuchFormat (QStr ''lowestaudio'')))
    \<and> (V = [] \<longrightarrow> pick ''highestvideo'' = Inl (NoSuchFormat (QStr ''highestvideo''))
                 \<and> pick ''lowestvideo'' = Inl (NoSuchFormat (QStr ''lowestvideo'')))
    \<and> (A \<noteq> [] \<longrightarrow> (\<exists>i<length A. pick ''highestaudio'' = Inr (A ! i)
          \<and> (\<forall>g\<in>set A. akey g \<le> akey (A ! i))
          \<and> (\<forall>g\<in>set A. akey g = akey (A ! i) \<longrightarrow> lab (A ! i) \<le> lab g)
          \<and> (\<forall>j<i. akey (A ! j) = akey (A ! i) \<longrightarrow> lab (A ! j) \<noteq> lab (A ! i))))
    \<and> (A \<noteq> [] \<longrightarrow> (\<exists>i<length A. pick ''lowestaudio'' = Inr (A ! i)
          \<and> (\<forall>g\<in>set A. akey (A ! i) \<le> akey g)
          \<and> (\<forall>j<length A. i < j \<longrightarrow> akey (A ! j) \<noteq> akey (A ! i))))
    \<and> (V \<noteq> [] \<and> (\<forall>g\<in>set V. parseInt (str_or (qualityLabel g) ''0'') \<noteq> NaN) \<longrightarrow>
          (\<exists>i<length V. pick ''highestvideo'' = Inr (V ! i)
          \<and> (\<forall>g\<in>set V. vkey g \<le> vkey (V ! i))
          \<and> (\<forall>g\<in>set V. vkey g = vkey (V ! i)
                 \<longrightarrow> opt_or_zero (audioBitrate (V ! i)) \<le> opt_or_zero (audioBitrate g))
          \<and> (\<forall>j<i. vkey (V ! j) = vkey (V ! i)
                 \<longrightarrow> opt_or_zero (audioBitrate (V ! j)) \<noteq> opt_or_zero (audioBitrate (V ! i)))))
    \<and> (V \<noteq> [] \<and> (\<forall>g\<in>set V. parseInt (str_or (qualityLabel g) ''0'') \<noteq> NaN) \<longrightarrow>
          (\<exists>i<length V. pick ''lowestvideo'' = Inr (V ! i)
          \<and> (\<forall>g\<in>set V. vkey (V ! i) \<le> vkey g)
          \<and> (\<forall>j<length V. i < j \<longrightarrow> vkey (V ! j) \<noteq> vkey (V ! i))))"
proof -
  have Aeq: "A = filterAudio (dropLiveUnlessHLS formats)"
    unfolding A live by (rule kept_audio [symmetric])
  have Veq: "V = filterVideo (dropLiveUnlessHLS formats)"
    unfolding V live by (rule kept_video [symmetric])
  have ak: "akey = keys [getAudioBitrate, getAudioEncodingRank]"
    unfolding akey by (intro ext) (simp add: audio_keys)
  have vk: "vkey = keys [qualityLabelInt, getVideoBitrate, getVideoEncodingRank]"
    unfolding vkey lab by (intro ext) (simp add: video_keys)
  have lb: "lab = (\<lambda>g. or_zero (qualityLabelInt g))"
    unfolding lab by (intro ext) (simp add: qualityLabelInt_def)
  have nan: "(\<forall>g\<in>set V. parseInt (str_or (qualityLabel g) ''0'') \<noteq> NaN)
      = (\<forall>g\<in>set V. qualityLabelInt g \<noteq> NaN)"
    by (simp add: qualityLabelInt_def)
  note ha = highestaudio_total [OF Aeq] and la = lowestaudio_total [OF Aeq]
    and hv = highestvideo_total [OF Veq] and lv = lowestvideo_total [OF Veq]
  have s1: "chooseFormat [resolved_fmt18, resolved_fmt140] (qualityOnly (Some (QStr ''highestaudio'')))
           = Inr resolved_fmt140"
    by code_simp
  have s2: "itag resolved_fmt140 = 140"
    by code_simp
  have e1: "A = [] \<longrightarrow> pick ''highestaudio'' = Inl (NoSuchFormat (QStr ''highestaudio''))
                 \<and> pick ''lowestaudio'' = Inl (NoSuchFormat (QStr ''lowestaudio''))"
    using ha la unfolding sel by simp
  have e2: "V = [] \<longrightarrow> pick ''highestvideo'' = Inl (NoSuchFormat (QStr ''highestvideo''))
                 \<and> pick ''lowestvideo'' = Inl (NoSuchFormat (QStr ''lowestvideo''))"
    using hv lv unfolding sel by simp
  from ha have p1: "A \<noteq> [] \<longrightarrow> (\<exists>i<length A. pick ''highestaudio'' = Inr (A ! i)
          \<and> (\<forall>g\<in>set A. akey g \<le> akey (A ! i))
          \<and> (\<forall>g\<in>set A. akey g = akey (A ! i) \<longrightarrow> lab (A ! i) \<le> lab g)
          \<and> (\<forall>j<i. akey (A ! j) = akey (A ! i) \<longrightarrow> lab (A ! j) \<noteq> lab (A ! i)))"
    unfolding sel ak lb by (rule conjunct2)
  from la have p2: "A \<noteq> [] \<longrightarrow> (\<exists>i<length A. pick ''lowestaudio'' = Inr (A ! i)
          \<and> (\<forall>g\<in>set A. akey (A ! i) \<le> akey g)
          \<and> (\<forall>j<length A. i < j \<longrightarrow> akey (A ! j) \<noteq> akey (A ! i)))"
    unfolding sel ak by (rule conjunct2)
  from hv have p3: "V \<noteq> [] \<and> (\<forall>g\<in>set V. parseInt (str_or (qualityLabel g) ''0'') \<noteq> NaN) \<longrightarrow>
          (\<exists>i<length V. pick ''highestvideo'' = Inr (V ! i)
          \<and> (\<forall>g\<in>set V. vkey g \<le> vkey (V ! i))
          \<and> (\<forall>g\<in>set V. vkey g = vkey (V ! i)
                 \<longrightarrow> opt_or_zero (audioBitrate (V ! i)) \<le> opt_or_zero (audioBitrate g))
          \<and> (\<forall>j<i. vkey (V ! j) = vkey (V ! i)
                 \<longrightarrow> opt_or_zero (audioBitrate (V ! j)) \<noteq> opt_or_zero (audioBitrate (V ! i))))"
    unfolding sel vk nan by (rule conjunct2)
  from lv have p4: "V \<noteq> [] \<and> (\<forall>g\<in>set V. parseInt (str_or (qualityLabel g) ''0'') \<noteq> NaN) \<longrightarrow>
          (\<exists>i<length V. pick ''lowestvideo'' = Inr (V ! i)
          \<and> (\<forall>g\<in>set V. vkey (V ! i) \<le> vkey g)
          \<and> (\<forall>j<length V. i < j \<longrightarrow> vkey (V ! j) \<noteq> vkey (V ! i)))"
    unfolding sel vk nan by (rule conjunct2)
  from s1 s2 e1 e2 p1 p2 p3 p4 show ?thesis by (intro conjI)
qed
theorem chooseFormat_audio_video_modes_witness:
  "chooseFormat [url_fmt140] (qualityOnly (Some (QStr ''highestvideo'')))
     = Inl (NoSuchFormat (QStr ''highestvideo''))
   \<and> (\<exists>i<3. chooseFormat [resolved_fmt140, resolved_fmt18, resolved_fmt22]
                (qualityOnly (Some (QStr ''highestaudio'')))
              = Inr ([resolved_fmt140, resolved_fmt18, resolved_fmt22] ! i)
            \<and> or_zero (parseInt (str_or (qualityLabel ([resolved_fmt140, resolved_fmt18, resolved_fmt22] ! i)) ''0'')) \<le> 0)
   \<and> chooseFormat [resolved_fmt140, resolved_fmt18, resolved_fmt22] (qualityOnly (Some (QStr ''highestaudio'')))
     = Inr resolved_fmt140
   \<and> chooseFormat [resolved_fmt140, resolved_fmt18, resolved_fmt22] (qualityOnly (Some (QStr ''lowestaudio'')))
     = Inr resolved_fmt22
   \<and> chooseFormat [resolved_fmt140, resolved_fmt18, resolved_fmt22] (qualityOnly (Some (QStr ''highestvideo'')))
     = Inr resolved_fmt22
   \<and> chooseFormat [resolved_fmt140, resolved_fmt18, resolved_fmt22] (qualityOnly (Some (QStr ''lowestvideo'')))
     = Inr resolved_fmt18"
proof -
  let ?L = "[resolved_fmt140, resolved_fmt18, resolved_fmt22]"
  let ?lab = "\<lambda>g. or_zero (parseInt (str_or (qualityLabel g) ''0''))"
  let ?akey = "\<lambda>g. [opt_or_zero (audioBitrate g), findIndex (codecs_includes g) audioEncodingRanks]"
  have V0: "filter (\<lambda>g. truthy_str (url g) \<and> hasVideo g
               \<and> ((\<exists>h\<in>set [url_fmt140]. isHLS h) \<longrightarrow> isHLS g \<or> \<not> isLive g)) [url_fmt140] = []"
    by code_simp
  note t0 = chooseFormat_audio_video_modes [OF refl refl refl refl refl refl refl, of "[url_fmt140]"]
  note v0 = t0 [THEN conjunct2, THEN conjunct2, THEN conjunct2, THEN conjunct1]
  from mp [OF v0 V0]
  have w1: "chooseFormat [url_fmt140] (qualityOnly (Some (QStr ''highestvideo'')))
     = Inl (NoSuchFormat (QStr ''highestvideo''))"
    by (rule conjunct1)
  have A: "filter (\<lambda>g. truthy_str (url g) \<and> hasAudio g
               \<and> ((\<exists>h\<in>set ?L. isHLS h) \<longrightarrow> isHLS g \<or> \<not> isLive g)) ?L = ?L"
    by code_simp
  have k0: "?akey resolved_fmt140 = [0, -1]" by code_simp
  have k1: "?akey resolved_fmt18 = [0, -1]" by code_simp
  have k2: "?akey resolved_fmt22 = [0, -1]" by code_simp
  have l0: "?lab resolved_fmt140 = 0" by code_simp
  note t1 = chooseFormat_audio_video_modes [OF refl refl refl refl refl refl refl, of ?L]
  note a1 = t1 [THEN conjunct2, THEN conjunct2, THEN conjunct2, THEN conjunct2, THEN conjunct1, unfolded A]
  have ne: "?L \<noteq> []" by simp
  from mp [OF a1 ne] obtain i where i: "i < length ?L"
      "chooseFormat ?L (qualityOnly (Some (QStr ''highestaudio''))) = Inr (?L ! i)"
      "\<forall>g\<in>set ?L. ?akey g = ?akey (?L ! i) \<longrightarrow> ?lab (?L ! i) \<le> ?lab g"
    by blast
  from i(1) have i3: "i < 3" by simp
  then have "i = 0 \<or> i = 1 \<or> i = 2" by linarith
  then have ki: "?akey (?L ! i) = [0, -1]"
    using k0 k1 k2 by (elim disjE) (simp_all only: nth_Cons_0 nth_Cons_Suc One_nat_def numeral_2_eq_2)
  have "resolved_fmt140 \<in> set ?L" by simp
  with i(3) have "?akey resolved_fmt140 = ?akey (?L ! i) \<longrightarrow> ?lab (?L ! i) \<le> ?lab resolved_fmt140"
    by (rule bspec)
  with k0 ki l0 have "?lab (?L ! i) \<le> 0" by (simp only:)
  with i3 i(2) have w2: "\<exists>i<3. chooseFormat ?L (qualityOnly (Some (QStr ''highestaudio''))) = Inr (?L ! i)
            \<and> ?lab (?L ! i) \<le> 0"
    by blast
  have w3: "chooseFormat ?L (qualityOnly (Some (QStr ''highestaudio''))) = Inr resolved_fmt140"
    by code_simp
  have w4: "chooseFormat ?L (qualityOnly (Some (QStr ''lowestaudio''))) = Inr resolved_fmt22"
    by code_simp
  have w5: "chooseFormat ?L (qualityOnly (Some (QStr ''highestvideo''))) = Inr resolved_fmt22"
    by code_simp
  have w6: "chooseFormat ?L (qualityOnly (Some (QStr ''lowestvideo''))) = Inr resolved_fmt18"
    by code_simp
  from w1 w2 w3 w4 w5 w6 show ?thesis by (intro conjI)
qed

section \<open>Properties of retryFunc\<close>


lemma retryLoop_ok:
  "c \<le> M \<Longrightarrow> f (nat c) = Inr r \<Longrightarrow> retryLoop f M inc mx c = (Inr (Some r), [Called (nat c)])"
  by (subst retryLoop.simps) simp

lemma retryLoop_throw:
  "c \<le> M \<Longrightarrow> f (nat c) = Inl e \<Longrightarrow> statusBelow500 e \<or> M \<le> c
     \<Longrightarrow> retryLoop f M inc mx c = (Inl e, [Called (nat c)])"
  by (subst retryLoop.simps) auto

lemma retryLoop_retry:
  "c < M \<Longrightarrow> f (nat c) = Inl e \<Longrightarrow> \<not> statusBelow500 e
     \<Longrightarrow> retryLoop f M inc mx c =
          (fst (retryLoop f M inc mx (c + 1)),
           Called (nat c) # Waited (min ((c + 1) * inc) mx) # snd (retryLoop f M inc mx (c + 1)))"
  by (subst retryLoop.simps) (simp add: Let_def)


lemma retryLoop_run:
  assumes retryable: "\<forall>i<n. \<exists>e. f (nat c + i) = Inl e \<and> \<not> statusBelow500 e"
    and c: "0 \<le> c" and bound: "c + int n \<le> M"
    and final: "(\<exists>v. f (nat c + n) = Inr v \<and> res = Inr (Some v))
        \<or> (\<exists>e. f (nat c + n) = Inl e \<and> (statusBelow500 e \<or> c + int n = M) \<and> res = Inl e)"
  shows "retryLoop f M inc mx c
     = (res, concat (map (\<lambda>k. [Called k, Waited (min ((int k + 1) * inc) mx)]) [nat c ..< nat c + n])
             @ [Called (nat c + n)])"
  using assms
proof (induction n arbitrary: c)
  case 0
  from "0.prems"(4) consider (ok) v where "f (nat c) = Inr v" "res = Inr (Some v)"
    | (err) e where "f (nat c) = Inl e" "statusBelow500 e \<or> c = M" "res = Inl e"
    by auto
  then show ?case
  proof cases
    case ok
    with "0.prems"(3) show ?thesis
      using retryLoop_ok [where f = f and c = c and M = M and r = v] by simp
  next
    case err
    with "0.prems"(3) show ?thesis
      using retryLoop_throw [where f = f and c = c and M = M and e = e] by auto
  qed
next
  case (Suc n)
  from Suc.prems(1) obtain e where e: "f (nat c) = Inl e" "\<not> statusBelow500 e" by force
  from Suc.prems(3) have lt: "c < M" by simp
  from Suc.prems(2) have c1: "0 \<le> c + 1" "nat (c + 1) = Suc (nat c)" by simp_all
  have r1: "\<forall>i<n. \<exists>e. f (nat (c + 1) + i) = Inl e \<and> \<not> statusBelow500 e"
  proof (intro allI impI)
    fix i assume "i < n"
    then have "Suc i < Suc n" by simp
    with Suc.prems(1) have "\<exists>e. f (nat c + Suc i) = Inl e \<and> \<not> statusBelow500 e" by blast
    then show "\<exists>e. f (nat (c + 1) + i) = Inl e \<and> \<not> statusBelow500 e" by (simp add: c1(2))
  qed
  from Suc.prems(3) have b1: "(c + 1) + int n \<le> M" by simp
  from Suc.prems(4) have f1: "(\<exists>v. f (nat (c + 1) + n) = Inr v \<and> res = Inr (Some v))
        \<or> (\<exists>e. f (nat (c + 1) + n) = Inl e \<and> (statusBelow500 e \<or> (c + 1) + int n = M) \<and> res = Inl e)"
    by (simp add: c1(2) add.assoc)
  note IH = Suc.IH [OF r1 c1(1) b1 f1]
  have "int (nat c) = c" using Suc.prems(2) by simp
  then have w: "min ((c + 1) * inc) mx = min ((int (nat c) + 1) * inc) mx" by simp
  show ?case
    by (subst retryLoop_retry [where f = f and c = c, OF lt e])
       (simp add: IH c1(2) upt_conv_Cons w del: upt_Suc)
qed

text \<open>
  C4, as stated, fails. A call that fails with an error carrying no status code (here the
  validation error of the watch-page parser) is retried until the attempts are used up, and
  the waits grow by a constant step, 500, 1000, 1500, where an exponential backoff would
  double them.
\<close>

theorem retryFunc_5xx_only_exponential_counterexample:
  "retryFunc failing_parse defaultRetry
     = (Inl (Error ''Error when parsing watch.html, maybe YouTube made a change.''),
        [Called 0, Waited 500, Called 1, Waited 1000, Called 2, Waited 1500, Called 3])
   \<and> statusCode (Error ''Error when parsing watch.html, maybe YouTube made a change.'') = None"
  by (simp add: retryFunc_def effMaxRetries_def effBackoff_def defaultRetry_def retryLoop.simps
      failing_parse_def statusBelow500_def)

text \<open>
  C4, amended. Let \<open>M\<close> be \<open>maxRetries\<close>, or 3 when that is absent or 0, and let the
  backoff be \<open>inc\<close> and \<open>mx\<close>, or 500 and 5000 when absent. Let the calls numbered
  \<open>0\<close> to \<open>n - 1\<close> fail with errors that carry no status code below 500 (a status code
  of 500 or more, or none at all), with \<open>n \<le> M\<close>. Then call \<open>k < n\<close> is followed by a
  wait of \<open>min ((k + 1) * inc) mx\<close> and by call \<open>k + 1\<close>, and call \<open>n\<close> ends the run:
  if it succeeds, its value is returned; if it fails with a status code below 500, that
  error is rethrown at once, on the first call as on a retry; and if it fails when
  \<open>n = M\<close>, the error is rethrown whatever it is. So there are \<open>n + 1 \<le> M + 1\<close> calls,
  and the waits are \<open>min (k * inc) mx\<close> for \<open>k\<close> from 1 to \<open>n\<close>: linear in \<open>k\<close> and
  never above \<open>mx\<close>.
\<close>

theorem retryFunc_policy:
  assumes M: "M = (case maxRetries options of None \<Rightarrow> 3 | Some m \<Rightarrow> if m = 0 then 3 else m)"
    and b: "(inc, mx) = (case backoff options of None \<Rightarrow> (500, 5000) | Some p \<Rightarrow> p)"
    and retryable: "\<forall>i<n. \<exists>e. func i = Inl e \<and> \<not> (\<exists>s. statusCode e = Some s \<and> s < 500)"
    and bound: "int n \<le> M"
    and attempts: "attempts = concat (map (\<lambda>k. [Called k, Waited (min ((int k + 1) * inc) mx)]) [0..<n])
                     @ [Called n]"
  shows "(\<forall>v. func n = Inr v \<longrightarrow> retryFunc func options = (Inr (Some v), attempts))
       \<and> (\<forall>e s. func n = Inl e \<and> statusCode e = Some s \<and> s < 500
             \<longrightarrow> retryFunc func options = (Inl e, attempts))
       \<and> (\<forall>e. func n = Inl e \<and> int n = M \<longrightarrow> retryFunc func options = (Inl e, attempts))
       \<and> calls attempts = [0..<n + 1]
       \<and> waits attempts = map (\<lambda>k. min (int k * inc) mx) [1..<n + 1]
       \<and> (\<forall>w\<in>set (waits attempts). w \<le> mx)"
proof -
  have below: "statusBelow500 e \<longleftrightarrow> (\<exists>s. statusCode e = Some s \<and> s < 500)" for e
    by (auto simp: statusBelow500_def split: option.splits)
  from M have eM: "effMaxRetries options = M" by (simp add: effMaxRetries_def)
  from b have eB: "fst (effBackoff options) = inc" "snd (effBackoff options) = mx"
    by (simp_all add: effBackoff_def split: option.splits prod.splits) (metis fst_conv snd_conv)+
  from retryable have r0: "\<forall>i<n. \<exists>e. func (nat 0 + i) = Inl e \<and> \<not> statusBelow500 e"
    by (simp add: below)
  from bound have b0: "0 + int n \<le> M" by simp
  have run: "retryFunc func options = (res, attempts)"
    if "(\<exists>v. func (nat 0 + n) = Inr v \<and> res = Inr (Some v))
        \<or> (\<exists>e. func (nat 0 + n) = Inl e \<and> (statusBelow500 e \<or> 0 + int n = M) \<and> res = Inl e)" for res
    using retryLoop_run [where f = func and c = 0 and M = M and inc = inc and mx = mx, OF r0 _ b0 that]
    by (simp add: retryFunc_def eM eB attempts)
  have c1: "\<forall>v. func n = Inr v \<longrightarrow> retryFunc func options = (Inr (Some v), attempts)"
    using run by simp
  have c2: "\<forall>e s. func n = Inl e \<and> statusCode e = Some s \<and> s < 500
             \<longrightarrow> retryFunc func options = (Inl e, attempts)"
    using run by (simp add: below)
  have c3: "\<forall>e. func n = Inl e \<and> int n = M \<longrightarrow> retryFunc func options = (Inl e, attempts)"
    using run by simp
  have cw: "calls (concat (map (\<lambda>k. [Called k, Waited (min ((int k + 1) * inc) mx)]) [a..<a + m]) @ [Called (a + m)])
        = [a..<a + m + 1]
      \<and> waits (concat (map (\<lambda>k. [Called k, Waited (min ((int k + 1) * inc) mx)]) [a..<a + m]) @ [Called (a + m)])
        = map (\<lambda>k. min (int k * inc) mx) [a + 1..<a + m + 1]" for a m
  proof (induction m arbitrary: a)
    case 0
    show ?case by simp
  next
    case (Suc m)
    from Suc [of "Suc a"] show ?case
      by (simp add: upt_conv_Cons add.commute del: upt_Suc)
  qed
  from cw [of 0 n] have c4: "calls attempts = [0..<n + 1]"
    and c5: "waits attempts = map (\<lambda>k. min (int k * inc) mx) [1..<n + 1]"
    by (simp_all add: attempts)
  have c6: "\<forall>w\<in>set (waits attempts). w \<le> mx"
    by (subst c5) auto
  from c1 c2 c3 c4 c5 c6 show ?thesis by (intro conjI)
qed

theorem retryFunc_policy_witness:
  "retryFunc failing_404 defaultRetry = (Inl (StatusCodeError 404), [Called 0])
   \<and> retryFunc failing_503_then_404 defaultRetry
        = (Inl (StatusCodeError 404), [Called 0, Waited 500, Called 1])
   \<and> retryFunc failing_503_twice defaultRetry
        = (Inr (Some ()), [Called 0, Waited 500, Called 1, Waited 1000, Called 2])
   \<and> retryFunc failing_parse \<lparr>maxRetries = Some 2, backoff = Some (400, 700)\<rparr>
        = (Inl (Error ''Error when parsing watch.html, maybe YouTube made a change.''),
           [Called 0, Waited 400, Called 1, Waited 700, Called 2])"
proof -
  have d: "(3::int) = (case maxRetries defaultRetry of None \<Rightarrow> 3 | Some m \<Rightarrow> if m = 0 then 3 else m)"
    "(500::int, 5000::int) = (case backoff defaultRetry of None \<Rightarrow> (500, 5000) | Some p \<Rightarrow> p)"
    by (simp_all add: defaultRetry_def)
  have a0: "\<forall>i<0::nat. \<exists>e. failing_404 i = Inl e \<and> \<not> (\<exists>s. statusCode e = Some s \<and> s < 500)"
    by simp
  have a1: "failing_404 0 = Inl (StatusCodeError 404) \<and> statusCode (StatusCodeError 404) = Some 404 \<and> (404::int) < 500"
    by (simp add: failing_404_def)
  from retryFunc_policy [where options = defaultRetry and func = failing_404 and n = 0, OF d a0 _ refl] a1
  have w1: "retryFunc failing_404 defaultRetry = (Inl (StatusCodeError 404), [Called 0])"
    by simp
  have b0: "\<forall>i<1::nat. \<exists>e. failing_503_then_404 i = Inl e \<and> \<not> (\<exists>s. statusCode e = Some s \<and> s < 500)"
    by (simp add: failing_503_then_404_def)
  have b1: "failing_503_then_404 1 = Inl (StatusCodeError 404) \<and> statusCode (StatusCodeError 404) = Some 404 \<and> (404::int) < 500"
    by (simp add: failing_503_then_404_def)
  from retryFunc_policy [where options = defaultRetry and func = failing_503_then_404 and n = 1, OF d b0 _ refl] b1
  have w2: "retryFunc failing_503_then_404 defaultRetry
        = (Inl (StatusCodeError 404), [Called 0, Waited 500, Called 1])"
    by simp
  have c0: "\<forall>i<2::nat. \<exists>e. failing_503_twice i = Inl e \<and> \<not> (\<exists>s. statusCode e = Some s \<and> s < 500)"
    by (simp add: failing_503_twice_def)
  have c1: "failing_503_twice 2 = Inr ()"
    by (simp add: failing_503_twice_def)
  from retryFunc_policy [where options = defaultRetry and func = failing_503_twice and n = 2, OF d c0 _ refl] c1
  have w3: "retryFunc failing_503_twice defaultRetry
        = (Inr (Some ()), [Called 0, Waited 500, Called 1, Waited 1000, Called 2])"
    by (simp add: upt_conv_Cons del: upt_Suc)
  have e: "(2::int) = (case maxRetries \<lparr>maxRetries = Some 2, backoff = Some (400, 700)\<rparr> of
                         None \<Rightarrow> 3 | Some m \<Rightarrow> if m = 0 then 3 else m)"
    "(400::int, 700::int) = (case backoff \<lparr>maxRetries = Some 2, backoff = Some (400, 700)\<rparr> of
                         None \<Rightarrow> (500, 5000) | Some p \<Rightarrow> p)"
    by simp_all
  have p0: "\<forall>i<2::nat. \<exists>e. failing_parse i = Inl e \<and> \<not> (\<exists>s. statusCode e = Some s \<and> s < 500)"
    by (simp add: failing_parse_def)
  have p1: "failing_parse 2 = Inl (Error ''Error when parsing watch.html, maybe YouTube made a change.'')"
    by (simp add: failing_parse_def)
  from retryFunc_policy [where options = "\<lparr>maxRetries = Some 2, backoff = Some (400, 700)\<rparr>"
      and func = failing_parse and n = 2, OF e p0 _ refl] p1
  have w4: "retryFunc failing_parse \<lparr>maxRetries = Some 2, backoff = Some (400, 700)\<rparr>
        = (Inl (Error ''Error when parsing watch.html, maybe YouTube made a change.''),
           [Called 0, Waited 400, Called 1, Waited 700, Called 2])"
    by (simp add: upt_conv_Cons del: upt_Suc)
  from w1 w2 w3 w4 show ?thesis by (intro conjI)
qed

section \<open>Properties of the chunked download\<close>















section \<open>Properties of the manifest parsers\<close>

text \<open>The result of \<open>getDashManifest\<close> never holds more than one format.\<close>

lemma getDashManifest_at_most_one:
  "getDashManifest manifestUrl fetched = Inr d \<Longrightarrow> length d \<le> 1"
proof -
  have step: "length (snd st) \<le> 1 \<Longrightarrow> (\<forall>k\<in>fst ` set (snd st). k = manifestUrl)
      \<Longrightarrow> length (snd (onopentag manifestUrl node st)) \<le> 1
        \<and> (\<forall>k\<in>fst ` set (snd (onopentag manifestUrl node st)). k = manifestUrl)" for st node
    by (cases "snd st"; cases "tl (snd st)")
       (auto simp: onopentag_def Let_def split: number.splits)
  have "length (snd (foldl (\<lambda>st node. onopentag manifestUrl node st) st nodes)) \<le> 1
     \<and> (\<forall>k\<in>fst ` set (snd (foldl (\<lambda>st node. onopentag manifestUrl node st) st nodes)). k = manifestUrl)"
    if "length (snd st) \<le> 1" "\<forall>k\<in>fst ` set (snd st). k = manifestUrl" for st nodes
    using that
  proof (induction nodes arbitrary: st)
    case Nil
    then show ?case by simp
  next
    case (Cons n ns)
    from step [OF Cons.prems] have
      "length (snd (onopentag manifestUrl n st)) \<le> 1"
      "\<forall>k\<in>fst ` set (snd (onopentag manifestUrl n st)). k = manifestUrl" by simp_all
    from Cons.IH [OF this] show ?case by simp
  qed
  from this [of "([], [])"] show "getDashManifest manifestUrl fetched = Inr d \<Longrightarrow> length d \<le> 1"
    by (auto simp: getDashManifest_def split: sum.splits)
qed

text \<open>
  C8 does not hold of the code. Every format synthesized from a representation is stored
  under the same key, the manifest URL, so each one replaces the one before: a manifest
  with two representations whose IDs are itags (133, video, and 140, audio) yields one
  format, that of the last representation, which carries its bitrate and its audio
  sample rate.
\<close>

theorem getDashManifest_keeps_last_representation:
  "length (filter isItagRepresentation two_representations) = 2
   \<and> getDashManifest dash_url (Inr two_representations)
     = Inr [(dash_url, (bareFormat 140)\<lparr>url := Some dash_url, bitrate := Some (Num 130000),
          mimeType := Some ''audio/mp4; codecs=\"mp4a.40.2\"'', audioSampleRate := Some ''44100''\<rparr>)]"
  by code_simp

section \<open>Properties of the cache\<close>

lemma cache_delete_none: "entries (cache_delete st k) k = None"
  by (simp add: cache_delete_def split: option.splits)

lemma cache_delete_keeps_none: "entries st k = None \<Longrightarrow> entries (cache_delete st k') k = None"
  by (simp add: cache_delete_def split: option.splits)

lemma deletes_keep_none:
  "entries s k = None \<Longrightarrow>
   entries (foldl (\<lambda>s w. if fst w = p then cache_delete s (snd w) else s) s ws) k = None"
  by (induction ws arbitrary: s) (simp_all add: cache_delete_keeps_none)

lemma deletes_remove:
  "(p, k) \<in> set ws \<Longrightarrow>
   entries (foldl (\<lambda>s w. if fst w = p then cache_delete s (snd w) else s) s ws) k = None"
proof (induction ws arbitrary: s)
  case Nil
  then show ?case by simp
next
  case (Cons w ws)
  show ?case
  proof (cases "w = (p, k)")
    case True
    then show ?thesis by (simp add: deletes_keep_none cache_delete_none)
  next
    case False
    with Cons.prems have "(p, k) \<in> set ws" by simp
    from Cons.IH [OF this] show ?thesis by simp
  qed
qed

lemma rejection_deletes:
  "(p, k) \<in> set (watchers st) \<Longrightarrow> \<not> cache_has (promise_rejected st p) k"
  by (simp add: promise_rejected_def cache_has_def deletes_remove)

lemma getOrSet_miss_promise:
  assumes "\<not> cache_has st k"
  shows "getOrSet st k (Inr (Promise p))
     = (Inr (Promise p), (cache_set st k (Promise p))\<lparr>watchers := watchers st @ [(p, k)]\<rparr>, True)"
  using assms by (simp add: getOrSet_def Let_def cache_set_def)

lemma getOrSet_absent:
  "\<not> cache_has st k \<Longrightarrow> fst (getOrSet st k fn) = fn \<and> snd (snd (getOrSet st k fn))"
  by (cases fn) (simp_all add: getOrSet_def Let_def)

lemma getOrSet_present:
  "entries st k = Some (tid, v) \<Longrightarrow> v \<noteq> Null \<Longrightarrow> getOrSet st k fn = (Inr v, st, False)"
  by (simp add: getOrSet_def cache_has_def cache_get_def)

lemma timers_matchI:
  assumes "\<And>key tid v. entries st key = Some (tid, v) \<Longrightarrow> tid < next_tid st \<and> timers st tid = Some key"
    and "\<And>tid key. timers st tid = Some key \<Longrightarrow> \<exists>v. entries st key = Some (tid, v)"
  shows "timers_match st"
  using assms unfolding timers_match_def by blast

lemma timers_match_entry:
  "timers_match st \<Longrightarrow> entries st key = Some (tid, v) \<Longrightarrow> tid < next_tid st \<and> timers st tid = Some key"
  unfolding timers_match_def by blast

lemma timers_match_timer:
  "timers_match st \<Longrightarrow> timers st tid = Some key \<Longrightarrow> \<exists>v. entries st key = Some (tid, v)"
  unfolding timers_match_def by blast

lemma cache_delete_present:
  "entries st k' = Some (t, w) \<Longrightarrow>
     cache_delete st k' = st\<lparr>entries := (entries st)(k' := None), timers := (timers st)(t := None)\<rparr>"
  by (simp add: cache_delete_def)

lemma cache_delete_absent: "entries st k' = None \<Longrightarrow> cache_delete st k' = st"
  by (simp add: cache_delete_def)

lemma cache_delete_match:
  assumes m: "timers_match st"
  shows "timers_match (cache_delete st k')"
proof (cases "entries st k'")
  case None
  with m show ?thesis by (simp add: cache_delete_absent)
next
  case (Some entry)
  obtain t w where e: "entries st k' = Some (t, w)" using Some by (cases entry) simp
  from timers_match_entry [OF m e] have t: "timers st t = Some k'" by simp
  show ?thesis
    unfolding cache_delete_present [OF e]
  proof (rule timers_matchI)
    fix key tid v
    assume "entries (st\<lparr>entries := (entries st)(k' := None), timers := (timers st)(t := None)\<rparr>) key = Some (tid, v)"
    then have k: "key \<noteq> k'" and ev: "entries st key = Some (tid, v)"
      by (simp_all split: if_splits)
    from timers_match_entry [OF m ev] have b: "tid < next_tid st" "timers st tid = Some key" by simp_all
    from b(2) t k have "tid \<noteq> t" by auto
    with b show "tid < next_tid (st\<lparr>entries := (entries st)(k' := None), timers := (timers st)(t := None)\<rparr>)
        \<and> timers (st\<lparr>entries := (entries st)(k' := None), timers := (timers st)(t := None)\<rparr>) tid = Some key"
      by simp
  next
    fix tid key
    assume "timers (st\<lparr>entries := (entries st)(k' := None), timers := (timers st)(t := None)\<rparr>) tid = Some key"
    then have tt: "tid \<noteq> t" and tk: "timers st tid = Some key"
      by (simp_all split: if_splits)
    from timers_match_timer [OF m tk] obtain v where v: "entries st key = Some (tid, v)" by blast
    from v e tt have "key \<noteq> k'" by auto
    with v show "\<exists>v. entries (st\<lparr>entries := (entries st)(k' := None), timers := (timers st)(t := None)\<rparr>) key = Some (tid, v)"
      by simp
  qed
qed

lemma cache_delete_other:
  assumes m: "timers_match st" and ne: "k' \<noteq> k" and ek: "entries st k = Some (tid, v)"
  shows "entries (cache_delete st k') k = Some (tid, v) \<and> timers (cache_delete st k') tid = Some k"
proof (cases "entries st k'")
  case None
  with timers_match_entry [OF m ek] ek show ?thesis by (simp add: cache_delete_absent)
next
  case (Some entry)
  obtain t w where e: "entries st k' = Some (t, w)" using Some by (cases entry) simp
  from timers_match_entry [OF m e] have t: "timers st t = Some k'" by simp
  from timers_match_entry [OF m ek] have tk: "timers st tid = Some k" by simp
  from t tk ne have "t \<noteq> tid" by auto
  with ek tk ne show ?thesis by (simp add: cache_delete_present [OF e])
qed

lemma deletes_match:
  "timers_match s \<Longrightarrow>
   timers_match (foldl (\<lambda>s w. if fst w = p then cache_delete s (snd w) else s) s ws)"
  by (induction ws arbitrary: s) (simp_all add: cache_delete_match)

lemma deletes_other:
  assumes "\<forall>w\<in>set ws. fst w = p \<longrightarrow> snd w \<noteq> k"
  shows "timers_match s \<Longrightarrow> entries s k = Some (tid, v) \<Longrightarrow>
     entries (foldl (\<lambda>s w. if fst w = p then cache_delete s (snd w) else s) s ws) k = Some (tid, v)
   \<and> timers (foldl (\<lambda>s w. if fst w = p then cache_delete s (snd w) else s) s ws) tid = Some k"
  using assms
proof (induction ws arbitrary: s)
  case Nil
  from timers_match_entry [OF Nil(1,2)] Nil(2) show ?case by simp
next
  case (Cons w ws)
  from Cons.prems(3) have rest: "\<forall>w\<in>set ws. fst w = p \<longrightarrow> snd w \<noteq> k" by simp
  show ?case
  proof (cases "fst w = p")
    case True
    with Cons.prems(3) have ne: "snd w \<noteq> k" by simp
    from cache_delete_other [OF Cons.prems(1) ne Cons.prems(2)]
    have e: "entries (cache_delete s (snd w)) k = Some (tid, v)" by simp
    have m: "timers_match (cache_delete s (snd w))"
      using Cons.prems(1) by (rule cache_delete_match)
    from Cons.IH [OF m e rest] True show ?thesis by simp
  next
    case False
    with Cons.IH [OF Cons.prems(1,2) rest] show ?thesis by simp
  qed
qed

lemma watchers_update_match:
  "timers_match (st\<lparr>watchers := ws\<rparr>) = timers_match st"
  by (simp add: timers_match_def)

lemma cache_set_absent:
  "entries st key = None \<Longrightarrow>
     cache_set st key v = st\<lparr>entries := (entries st)(key \<mapsto> (next_tid st, v)),
        timers := (timers st)(next_tid st \<mapsto> key), next_tid := Suc (next_tid st)\<rparr>"
  by (simp add: cache_set_def Let_def)

lemma cache_set_match:
  assumes m: "timers_match st" and n: "entries st key = None"
  shows "timers_match (cache_set st key v)"
  unfolding cache_set_absent [OF n]
proof (rule timers_matchI)
  fix k tid w
  assume a: "entries (st\<lparr>entries := (entries st)(key \<mapsto> (next_tid st, v)),
        timers := (timers st)(next_tid st \<mapsto> key), next_tid := Suc (next_tid st)\<rparr>) k = Some (tid, w)"
  show "tid < next_tid (st\<lparr>entries := (entries st)(key \<mapsto> (next_tid st, v)),
        timers := (timers st)(next_tid st \<mapsto> key), next_tid := Suc (next_tid st)\<rparr>)
     \<and> timers (st\<lparr>entries := (entries st)(key \<mapsto> (next_tid st, v)),
        timers := (timers st)(next_tid st \<mapsto> key), next_tid := Suc (next_tid st)\<rparr>) tid = Some k"
  proof (cases "k = key")
    case True
    with a show ?thesis by simp
  next
    case False
    with a have "entries st k = Some (tid, w)" by simp
    from timers_match_entry [OF m this] False show ?thesis by simp
  qed
next
  fix tid k
  assume a: "timers (st\<lparr>entries := (entries st)(key \<mapsto> (next_tid st, v)),
        timers := (timers st)(next_tid st \<mapsto> key), next_tid := Suc (next_tid st)\<rparr>) tid = Some k"
  show "\<exists>w. entries (st\<lparr>entries := (entries st)(key \<mapsto> (next_tid st, v)),
        timers := (timers st)(next_tid st \<mapsto> key), next_tid := Suc (next_tid st)\<rparr>) k = Some (tid, w)"
  proof (cases "tid = next_tid st")
    case True
    with a show ?thesis by simp
  next
    case False
    with a have "timers st tid = Some k" by simp
    from timers_match_timer [OF m this] obtain w where w: "entries st k = Some (tid, w)" by blast
    with n have "k \<noteq> key" by auto
    with w show ?thesis by simp
  qed
qed

lemma getOrSet_state:
  "fst (snd (getOrSet st key fn)) =
     (if cache_has st key then st
      else case fn of
             Inl e \<Rightarrow> st
           | Inr v \<Rightarrow> (case v of
                         Promise q \<Rightarrow> (cache_set st key v)\<lparr>watchers := watchers st @ [(q, key)]\<rparr>
                       | _ \<Rightarrow> cache_set st key v))"
  by (simp add: getOrSet_def Let_def cache_set_def split: sum.splits cached.splits)

lemma watchers_cache_delete: "watchers (cache_delete st k) = watchers st"
  by (simp add: cache_delete_def split: option.splits)

lemma watchers_cache_set: "watchers (cache_set st k v) = watchers st"
  by (simp add: cache_set_def Let_def)

lemma watchers_deletes:
  "watchers (foldl (\<lambda>s w. if fst w = p then cache_delete s (snd w) else s) s ws) = watchers s"
  by (induction ws arbitrary: s) (simp_all add: watchers_cache_delete)

lemma watchers_rejected:
  "watchers (promise_rejected st p) = filter (\<lambda>w. fst w \<noteq> p) (watchers st)"
  by (simp add: promise_rejected_def watchers_deletes)

lemma watchers_timer_fired: "watchers (timer_fired st tid) = watchers st"
  by (simp add: timer_fired_def watchers_cache_delete split: option.splits)

lemma cache_step_match:
  assumes m: "timers_match st"
  shows "timers_match (cache_step st ev)"
proof (cases ev)
  case (GetOrSet key fn)
  show ?thesis
  proof (cases "cache_has st key")
    case True
    with m GetOrSet show ?thesis by (simp add: getOrSet_state)
  next
    case False
    then have n: "entries st key = None" unfolding cache_has_def by blast
    note s = cache_set_match [OF m n]
    from GetOrSet False m s show ?thesis
      by (simp add: getOrSet_state watchers_update_match split: sum.splits cached.splits)
  qed
next
  case (TimerFired tid)
  show ?thesis
  proof (cases "timers st tid")
    case None
    with m TimerFired show ?thesis by (simp add: timer_fired_def)
  next
    case (Some key)
    from timers_match_timer [OF m Some] obtain v where v: "entries st key = Some (tid, v)" by blast
    have "cache_delete (st\<lparr>timers := (timers st)(tid := None)\<rparr>) key = cache_delete st key"
      using v by (simp add: cache_delete_def)
    with cache_delete_match [OF m, of key] TimerFired Some show ?thesis
      by (simp add: timer_fired_def)
  qed
next
  case (Rejected p)
  have "timers_match (st\<lparr>watchers := filter (\<lambda>w. fst w \<noteq> p) (watchers st)\<rparr>)"
    using m by (simp add: watchers_update_match)
  from deletes_match [OF this, of p "watchers st"] Rejected
  show ?thesis by (simp add: promise_rejected_def)
next
  case (Fulfilled p)
  with m show ?thesis by (simp add: promise_fulfilled_def watchers_update_match)
qed

lemma watcher_survives_step:
  assumes "(p, k) \<in> set (watchers s)" and "ev \<noteq> Rejected p" and "ev \<noteq> Fulfilled p"
  shows "(p, k) \<in> set (watchers (cache_step s ev))"
proof (cases ev)
  case (GetOrSet key fn)
  with assms(1) show ?thesis
    by (simp add: getOrSet_state watchers_cache_set split: sum.splits cached.splits)
next
  case (TimerFired tid)
  with assms(1) show ?thesis by (simp add: watchers_timer_fired)
next
  case (Rejected q)
  with assms(1,2) show ?thesis by (simp add: watchers_rejected)
next
  case (Fulfilled q)
  with assms(1,3) show ?thesis by (simp add: promise_fulfilled_def)
qed

lemma watcher_survives_run:
  "(p, k) \<in> set (watchers s) \<Longrightarrow> Rejected p \<notin> set evs \<Longrightarrow> Fulfilled p \<notin> set evs
     \<Longrightarrow> (p, k) \<in> set (watchers (cache_run s evs))"
proof (induction evs arbitrary: s)
  case Nil
  then show ?case by (simp add: cache_run_def)
next
  case (Cons ev evs)
  from Cons.prems have "ev \<noteq> Rejected p" "ev \<noteq> Fulfilled p" by auto
  from watcher_survives_step [OF Cons.prems(1) this]
  have "(p, k) \<in> set (watchers (cache_step s ev))" .
  from Cons.IH [OF this] Cons.prems(2,3) show ?case by (simp add: cache_run_def)
qed

lemma entry_survives_step:
  assumes m: "timers_match s" and e: "entries s k = Some (tid, v)" and vn: "v \<noteq> Null"
    and nt: "ev \<noteq> TimerFired tid"
    and nr: "\<forall>q. ev = Rejected q \<longrightarrow> (q, k) \<notin> set (watchers s)"
  shows "entries (cache_step s ev) k = Some (tid, v) \<and> timers (cache_step s ev) tid = Some k
     \<and> (\<forall>q. (q, k) \<in> set (watchers (cache_step s ev)) \<longrightarrow> (q, k) \<in> set (watchers s))"
proof (cases ev)
  case (GetOrSet key fn)
  from timers_match_entry [OF m e] have te: "tid < next_tid s" "timers s tid = Some k" by simp_all
  show ?thesis
  proof (cases "cache_has s key")
    case True
    with GetOrSet e te show ?thesis by (simp add: getOrSet_state)
  next
    case False
    then have n: "entries s key = None" unfolding cache_has_def by blast
    with e have kk: "key \<noteq> k" by auto
    from te(1) have "tid \<noteq> next_tid s" by simp
    with GetOrSet False e te kk show ?thesis
      by (simp add: getOrSet_state cache_set_absent [OF n] split: sum.splits cached.splits)
  qed
next
  case (TimerFired t)
  with nt have tt: "t \<noteq> tid" by simp
  from timers_match_entry [OF m e] have te: "timers s tid = Some k" by simp
  show ?thesis
  proof (cases "timers s t")
    case None
    with TimerFired e te show ?thesis by (simp add: timer_fired_def)
  next
    case (Some key)
    from timers_match_timer [OF m Some] obtain w where w: "entries s key = Some (t, w)" by blast
    with e tt have kk: "key \<noteq> k" by auto
    have d: "cache_delete (s\<lparr>timers := (timers s)(t := None)\<rparr>) key = cache_delete s key"
      using w by (simp add: cache_delete_def)
    from cache_delete_other [OF m kk e] TimerFired Some d show ?thesis
      by (simp add: timer_fired_def watchers_cache_delete)
  qed
next
  case (Rejected q)
  with nr have nq: "(q, k) \<notin> set (watchers s)" by simp
  then have o: "\<forall>w\<in>set (watchers s). fst w = q \<longrightarrow> snd w \<noteq> k" by auto
  have m': "timers_match (s\<lparr>watchers := filter (\<lambda>w. fst w \<noteq> q) (watchers s)\<rparr>)"
    using m by (simp add: watchers_update_match)
  have e': "entries (s\<lparr>watchers := filter (\<lambda>w. fst w \<noteq> q) (watchers s)\<rparr>) k = Some (tid, v)"
    using e by simp
  from deletes_other [OF o m' e'] Rejected show ?thesis
    by (simp add: promise_rejected_def watchers_deletes)
next
  case (Fulfilled q)
  from timers_match_entry [OF m e] have te: "timers s tid = Some k" by simp
  with Fulfilled e show ?thesis by (simp add: promise_fulfilled_def)
qed

lemma entry_survives_run:
  assumes vn: "v \<noteq> Null"
  shows "timers_match s \<Longrightarrow> entries s k = Some (tid, v) \<Longrightarrow> TimerFired tid \<notin> set evs
     \<Longrightarrow> \<forall>q. Rejected q \<in> set evs \<longrightarrow> (q, k) \<notin> set (watchers s)
     \<Longrightarrow> entries (cache_run s evs) k = Some (tid, v) \<and> timers (cache_run s evs) tid = Some k"
proof (induction evs arbitrary: s)
  case Nil
  from timers_match_entry [OF Nil(1,2)] Nil(2) show ?case by (simp add: cache_run_def)
next
  case (Cons ev evs)
  from Cons.prems(3) have nt: "ev \<noteq> TimerFired tid" and nt': "TimerFired tid \<notin> set evs" by auto
  from Cons.prems(4) have nr: "\<forall>q. ev = Rejected q \<longrightarrow> (q, k) \<notin> set (watchers s)" by simp
  note st = entry_survives_step [OF Cons.prems(1,2) vn nt nr]
  from st have e1: "entries (cache_step s ev) k = Some (tid, v)" by simp
  have m1: "timers_match (cache_step s ev)" using Cons.prems(1) by (rule cache_step_match)
  have nr': "\<forall>q. Rejected q \<in> set evs \<longrightarrow> (q, k) \<notin> set (watchers (cache_step s ev))"
  proof (intro allI impI)
    fix q assume "Rejected q \<in> set evs"
    with Cons.prems(4) have "(q, k) \<notin> set (watchers s)" by simp
    with st show "(q, k) \<notin> set (watchers (cache_step s ev))" by blast
  qed
  from Cons.IH [OF m1 e1 nt' nr'] show ?case by (simp add: cache_run_def)
qed

lemma cache_run_match:
  "timers_match st \<Longrightarrow> timers_match (cache_run st evs)"
  unfolding cache_run_def by (induction evs arbitrary: st) (simp_all add: cache_step_match)

lemma new_cache_match: "timers_match new_cache"
  by (simp add: timers_match_def new_cache_def)

text \<open>
  C10, as stated, fails in its last clause. A promise is stored for a key and is still
  pending when the timeout of its entry fires; a second call of \<open>getOrSet\<close> on the key
  misses and stores a second promise, which fulfils. \<open>getOrSet\<close> now returns the second
  promise from the cache, and the timeout of its entry is pending. Then the first promise
  rejects: its \<open>catch\<close> branch deletes the key, and with it the entry of the fulfilled
  promise, whose timeout has not fired; the next \<open>getOrSet\<close> calls its producer.
\<close>

theorem getOrSet_fulfilled_promise_evicted_counterexample:
  "fst (getOrSet (cache_run (new_cache :: (string, unit) cache_state)
          [GetOrSet ''watch'' (Inr (Promise 7)), TimerFired 0,
           GetOrSet ''watch'' (Inr (Promise 8)), Fulfilled 8])
        ''watch'' (Inr (Promise 9))) = Inr (Promise 8)
   \<and> timers (cache_run (new_cache :: (string, unit) cache_state)
          [GetOrSet ''watch'' (Inr (Promise 7)), TimerFired 0,
           GetOrSet ''watch'' (Inr (Promise 8)), Fulfilled 8]) 1 = Some ''watch''
   \<and> \<not> cache_has (cache_run (new_cache :: (string, unit) cache_state)
          [GetOrSet ''watch'' (Inr (Promise 7)), TimerFired 0,
           GetOrSet ''watch'' (Inr (Promise 8)), Fulfilled 8, Rejected 7]) ''watch''
   \<and> getOrSet (cache_run (new_cache :: (string, unit) cache_state)
          [GetOrSet ''watch'' (Inr (Promise 7)), TimerFired 0,
           GetOrSet ''watch'' (Inr (Promise 8)), Fulfilled 8, Rejected 7])
        ''watch'' (Inl (NetworkError ''offline'')) =
      (Inl (NetworkError ''offline''),
       cache_run (new_cache :: (string, unit) cache_state)
          [GetOrSet ''watch'' (Inr (Promise 7)), TimerFired 0,
           GetOrSet ''watch'' (Inr (Promise 8)), Fulfilled 8, Rejected 7],
       True)"
  by (simp add: cache_run_def new_cache_def getOrSet_def cache_has_def cache_get_def cache_set_def
      cache_delete_def timer_fired_def promise_rejected_def promise_fulfilled_def Let_def)

text \<open>
  C10, amended. In any state that a new cache reaches by calls of \<open>getOrSet\<close>, timers
  that fire and promises that settle, let \<open>getOrSet\<close> miss on a key and its producer
  return a promise. The promise is returned
  and cached: \<open>getOrSet\<close> on the key returns it without calling the producer. Whatever
  happens in between, as long as the promise has not settled, when it rejects the key
  has no entry any more, and the next \<open>getOrSet\<close> on the key calls its producer and
  returns what that gives. And as long as the timeout of the entry has not fired and no
  promise rejects for which an await of an earlier miss on the key is still pending (the
  promise itself is one of these), \<open>getOrSet\<close> on the key keeps returning the promise
  without calling the producer, whether the promise has fulfilled or not; when the
  timeout then fires, the key has no entry.
\<close>

theorem getOrSet_promise_entry_lifetime:
  fixes st :: "('k, 'v) cache_state"
  assumes reach: "st = cache_run new_cache before"
    and miss: "\<not> cache_has st k"
    and st1: "st1 = fst (snd (getOrSet st k (Inr (Promise p))))"
  shows "fst (getOrSet st k (Inr (Promise p))) = Inr (Promise p)
    \<and> snd (snd (getOrSet st k (Inr (Promise p))))
    \<and> getOrSet st1 k fn2 = (Inr (Promise p), st1, False)
    \<and> (\<forall>evs. Rejected p \<notin> set evs \<and> Fulfilled p \<notin> set evs \<longrightarrow>
           \<not> cache_has (cache_run st1 (evs @ [Rejected p])) k
         \<and> fst (getOrSet (cache_run st1 (evs @ [Rejected p])) k fn2) = fn2
         \<and> snd (snd (getOrSet (cache_run st1 (evs @ [Rejected p])) k fn2)))
    \<and> (\<forall>evs. TimerFired (next_tid st) \<notin> set evs
             \<and> (\<forall>q. Rejected q \<in> set evs \<longrightarrow> q \<noteq> p \<and> (q, k) \<notin> set (watchers st)) \<longrightarrow>
           getOrSet (cache_run st1 evs) k fn2 = (Inr (Promise p), cache_run st1 evs, False)
         \<and> \<not> cache_has (cache_run st1 (evs @ [TimerFired (next_tid st)])) k)"
proof -
  from getOrSet_miss_promise [OF miss] st1 have
    g: "getOrSet st k (Inr (Promise p)) = (Inr (Promise p), st1, True)"
    and s: "st1 = (cache_set st k (Promise p))\<lparr>watchers := watchers st @ [(p, k)]\<rparr>" by simp_all
  from miss have n: "entries st k = None" unfolding cache_has_def by blast
  from s have e1: "entries st1 k = Some (next_tid st, Promise p)"
    by (simp add: cache_set_absent [OF n])
  from s have w: "(p, k) \<in> set (watchers st1)" by simp
  from s have ws: "watchers st1 = watchers st @ [(p, k)]" by simp
  have m0: "timers_match st" unfolding reach by (rule cache_run_match [OF new_cache_match])
  have m1: "timers_match st1"
    unfolding s using cache_set_match [OF m0 n] by (simp add: watchers_update_match)
  have c1: "fst (getOrSet st k (Inr (Promise p))) = Inr (Promise p)"
    and c2: "snd (snd (getOrSet st k (Inr (Promise p))))" using g by simp_all
  have c3: "getOrSet st1 k fn2 = (Inr (Promise p), st1, False)"
    using e1 by (intro getOrSet_present) simp_all
  have c4: "\<forall>evs. Rejected p \<notin> set evs \<and> Fulfilled p \<notin> set evs \<longrightarrow>
           \<not> cache_has (cache_run st1 (evs @ [Rejected p])) k
         \<and> fst (getOrSet (cache_run st1 (evs @ [Rejected p])) k fn2) = fn2
         \<and> snd (snd (getOrSet (cache_run st1 (evs @ [Rejected p])) k fn2))"
  proof (intro allI impI)
    fix evs :: "('k, 'v) cache_event list"
    assume h: "Rejected p \<notin> set evs \<and> Fulfilled p \<notin> set evs"
    then have "(p, k) \<in> set (watchers (cache_run st1 evs))"
      using w by (intro watcher_survives_run) simp_all
    then have "\<not> cache_has (promise_rejected (cache_run st1 evs) p) k" by (rule rejection_deletes)
    then have r: "\<not> cache_has (cache_run st1 (evs @ [Rejected p])) k" by (simp add: cache_run_def)
    from getOrSet_absent [OF r, of fn2] r
    show "\<not> cache_has (cache_run st1 (evs @ [Rejected p])) k
         \<and> fst (getOrSet (cache_run st1 (evs @ [Rejected p])) k fn2) = fn2
         \<and> snd (snd (getOrSet (cache_run st1 (evs @ [Rejected p])) k fn2))" by simp
  qed
  have c5: "\<forall>evs. TimerFired (next_tid st) \<notin> set evs
             \<and> (\<forall>q. Rejected q \<in> set evs \<longrightarrow> q \<noteq> p \<and> (q, k) \<notin> set (watchers st)) \<longrightarrow>
           getOrSet (cache_run st1 evs) k fn2 = (Inr (Promise p), cache_run st1 evs, False)
         \<and> \<not> cache_has (cache_run st1 (evs @ [TimerFired (next_tid st)])) k"
  proof (intro allI impI)
    fix evs :: "('k, 'v) cache_event list"
    assume h: "TimerFired (next_tid st) \<notin> set evs
             \<and> (\<forall>q. Rejected q \<in> set evs \<longrightarrow> q \<noteq> p \<and> (q, k) \<notin> set (watchers st))"
    then have nt: "TimerFired (next_tid st) \<notin> set evs"
      and nr: "\<forall>q. Rejected q \<in> set evs \<longrightarrow> (q, k) \<notin> set (watchers st1)"
      by (simp_all add: ws)
    have pn: "Promise p \<noteq> (Null :: 'v cached)" by simp
    from entry_survives_run [OF pn m1 e1 nt nr]
    have e: "entries (cache_run st1 evs) k = Some (next_tid st, Promise p)"
      and t: "timers (cache_run st1 evs) (next_tid st) = Some k" by simp_all
    have a: "getOrSet (cache_run st1 evs) k fn2 = (Inr (Promise p), cache_run st1 evs, False)"
      using e by (intro getOrSet_present) simp_all
    have "\<not> cache_has (timer_fired (cache_run st1 evs) (next_tid st)) k"
      using t by (simp add: timer_fired_def cache_has_def cache_delete_none)
    then have b: "\<not> cache_has (cache_run st1 (evs @ [TimerFired (next_tid st)])) k"
      by (simp add: cache_run_def)
    from a b show "getOrSet (cache_run st1 evs) k fn2 = (Inr (Promise p), cache_run st1 evs, False)
         \<and> \<not> cache_has (cache_run st1 (evs @ [TimerFired (next_tid st)])) k" by (rule conjI)
  qed
  from c1 c2 c3 c4 c5 show ?thesis by (intro conjI)
qed
theorem getOrSet_promise_entry_lifetime_witness:
  "\<not> cache_has (new_cache :: (string, unit) cache_state) ''watch''
   \<and> fst (getOrSet (new_cache :: (string, unit) cache_state) ''watch'' (Inr (Promise 7))) = Inr (Promise 7)
   \<and> \<not> cache_has (cache_run (fst (snd (getOrSet (new_cache :: (string, unit) cache_state) ''watch'' (Inr (Promise 7)))))
           [GetOrSet ''other'' (Inr (Promise 8)), Rejected 7]) ''watch''
   \<and> snd (snd (getOrSet (cache_run (fst (snd (getOrSet (new_cache :: (string, unit) cache_state) ''watch'' (Inr (Promise 7)))))
           [GetOrSet ''other'' (Inr (Promise 8)), Rejected 7]) ''watch'' (Inr (Promise 9))))
   \<and> fst (getOrSet (cache_run (fst (snd (getOrSet (new_cache :: (string, unit) cache_state) ''watch'' (Inr (Promise 7)))))
           [Fulfilled 7, GetOrSet ''other'' (Inr (Promise 8)), Rejected 8]) ''watch'' (Inr (Promise 9)))
       = Inr (Promise 7)
   \<and> \<not> snd (snd (getOrSet (cache_run (fst (snd (getOrSet (new_cache :: (string, unit) cache_state) ''watch'' (Inr (Promise 7)))))
           [Fulfilled 7, GetOrSet ''other'' (Inr (Promise 8)), Rejected 8]) ''watch'' (Inr (Promise 9))))
   \<and> \<not> cache_has (cache_run (fst (snd (getOrSet (new_cache :: (string, unit) cache_state) ''watch'' (Inr (Promise 7)))))
           [Fulfilled 7, GetOrSet ''other'' (Inr (Promise 8)), Rejected 8, TimerFired 0]) ''watch''"
proof -
  let ?new = "new_cache :: (string, unit) cache_state"
  let ?st1 = "fst (snd (getOrSet ?new ''watch'' (Inr (Promise 7))))"
  let ?e1 = "[GetOrSet ''other'' (Inr (Promise 8))] :: (string, unit) cache_event list"
  let ?e2 = "[Fulfilled 7, GetOrSet ''other'' (Inr (Promise 8)), Rejected 8] :: (string, unit) cache_event list"
  have reach: "?new = cache_run new_cache []" by (simp add: cache_run_def)
  have miss: "\<not> cache_has ?new ''watch''" by (simp add: cache_has_def new_cache_def)
  note t = getOrSet_promise_entry_lifetime [OF reach miss refl, of 7 "Inr (Promise 9)"]
  from t have a: "fst (getOrSet ?new ''watch'' (Inr (Promise 7))) = Inr (Promise 7)" by (rule conjunct1)
  note rej = t [THEN conjunct2, THEN conjunct2, THEN conjunct2, THEN conjunct1, THEN spec, of ?e1]
  have h1: "Rejected 7 \<notin> set ?e1 \<and> Fulfilled 7 \<notin> set ?e1" by simp
  from mp [OF rej h1] have b: "\<not> cache_has (cache_run ?st1 (?e1 @ [Rejected 7])) ''watch''"
    and c: "snd (snd (getOrSet (cache_run ?st1 (?e1 @ [Rejected 7])) ''watch'' (Inr (Promise 9))))"
    by simp_all
  have same: "?e1 @ [Rejected 7] = [GetOrSet ''other'' (Inr (Promise 8)), Rejected 7]"
    by simp
  note ful = t [THEN conjunct2, THEN conjunct2, THEN conjunct2, THEN conjunct2, THEN spec, of ?e2]
  have h2: "TimerFired (next_tid ?new) \<notin> set ?e2
      \<and> (\<forall>q. Rejected q \<in> set ?e2 \<longrightarrow> q \<noteq> 7 \<and> (q, ''watch'') \<notin> set (watchers ?new))"
    by (simp add: new_cache_def)
  from mp [OF ful h2] have
    d: "getOrSet (cache_run ?st1 ?e2) ''watch'' (Inr (Promise 9)) = (Inr (Promise 7), cache_run ?st1 ?e2, False)"
    and e: "\<not> cache_has (cache_run ?st1 (?e2 @ [TimerFired (next_tid ?new)])) ''watch''"
    by simp_all
  from d have d1: "fst (getOrSet (cache_run ?st1 ?e2) ''watch'' (Inr (Promise 9))) = Inr (Promise 7)"
    and d2: "\<not> snd (snd (getOrSet (cache_run ?st1 ?e2) ''watch'' (Inr (Promise 9))))" by simp_all
  have nt: "next_tid ?new = 0" by (simp add: new_cache_def)
  from e have e': "\<not> cache_has (cache_run ?st1
           [Fulfilled 7, GetOrSet ''other'' (Inr (Promise 8)), Rejected 8, TimerFired 0]) ''watch''"
    by (simp add: nt)
  have b': "\<not> cache_has (cache_run ?st1 [GetOrSet ''other'' (Inr (Promise 8)), Rejected 7]) ''watch''"
    using b unfolding same .
  have c': "snd (snd (getOrSet (cache_run ?st1 [GetOrSet ''other'' (Inr (Promise 8)), Rejected 7])
                 ''watch'' (Inr (Promise 9))))"
    using c unfolding same .
  from miss a b' c' d1 d2 e' show ?thesis by (intro conjI)
qed

section \<open>Properties of the resolution\<close>














lemma fetchPlayer_iff:
  "fst (fetchPlayer E vid c) = Inr r \<longleftrightarrow>
     ((c = WEB_EMBEDDED \<or> c = TV) \<longrightarrow> getPlaybackContext E c = Inr ())
     \<and> playerRequest E c = Inr r \<and> playError (Some r) = None
     \<and> (\<exists>d. videoDetails r = Some d \<and> videoId d = Some vid)"
proof -
  have v: "validatePlayerResponse vid x = Inr r \<longleftrightarrow>
      x = r \<and> playError (Some r) = None \<and> (\<exists>d. videoDetails r = Some d \<and> videoId d = Some vid)" for x
    by (auto simp: validatePlayerResponse_def split: option.splits if_splits)
  have a: "andThen (playerRequest E c) (validatePlayerResponse vid) = Inr r \<longleftrightarrow>
      playerRequest E c = Inr r \<and> playError (Some r) = None
      \<and> (\<exists>d. videoDetails r = Some d \<and> videoId d = Some vid)"
    by (cases "playerRequest E c") (auto simp: andThen_def v)
  show ?thesis
  proof (cases "c = WEB_EMBEDDED \<or> c = TV")
    case True
    then show ?thesis
      using a by (cases "getPlaybackContext E c") (auto simp: fetchPlayer_def)
  next
    case False
    then show ?thesis using a by (simp add: fetchPlayer_def)
  qed
qed

lemma successfulResponses_split:
  "successfulResponses E vid options =
     concat (map (\<lambda>c. if c \<in> set (enabledClients options)
                       then (case fst (fetchPlayer E vid c) of Inl _ \<Rightarrow> [] | Inr v \<Rightarrow> [v]) else [])
               [WEB_EMBEDDED, TV, IOS, ANDROID])"
  by (simp add: successfulResponses_def devicePromises_def)

lemma successful_first:
  assumes i: "i < length cs"
    and yes: "S (cs ! i) = [r]"
    and no: "\<forall>j<i. S (cs ! j) = []"
  shows "\<exists>rest. concat (map S cs) = r # rest"
  using assms
proof (induction cs arbitrary: i)
  case Nil
  then show ?case by simp
next
  case (Cons c cs)
  show ?case
  proof (cases i)
    case 0
    with Cons.prems(2) show ?thesis by simp
  next
    case (Suc k)
    with Cons.prems have k: "k < length cs" "S (cs ! k) = [r]" by simp_all
    have "\<forall>j<k. S (cs ! j) = []"
    proof (intro allI impI)
      fix j assume "j < k"
      then have "Suc j < i" using Suc by simp
      with Cons.prems(3) have "S ((c # cs) ! Suc j) = []" by blast
      then show "S (cs ! j) = []" by simp
    qed
    from Cons.IH [OF k this] obtain rest where "concat (map S cs) = r # rest" by blast
    moreover from Cons.prems(3) Suc have "S c = []" by auto
    ultimately show ?thesis by simp
  qed
qed

lemma obj_set_map:
  assumes "distinct K"
  shows "obj_set k v (map (\<lambda>x. (x, g x)) K)
       = map (\<lambda>x. (x, (g(k := v)) x)) (if k \<in> set K then K else K @ [k])"
  using assms
proof (induction K)
  case Nil
  then show ?case by simp
next
  case (Cons a K)
  show ?case
  proof (cases "k = a")
    case True
    with Cons.prems have "a \<notin> set K" by simp
    then have "map (\<lambda>x. (x, (g(a := v)) x)) K = map (\<lambda>x. (x, g x)) K"
      by (intro map_cong) auto
    with True show ?thesis by simp
  next
    case False
    with Cons show ?thesis by simp
  qed
qed

lemma foldl_obj_set:
  "foldl (\<lambda>target kv. obj_set (fst kv) (snd kv) target) [] xs
     = map (\<lambda>k. (k, the (map_of (rev xs) k))) (rev (remdups (rev (map fst xs))))"
proof (induction xs rule: rev_induct)
  case Nil
  then show ?case by simp
next
  case (snoc x xs)
  obtain k v where x: "x = (k, v)" by (cases x)
  let ?K = "rev (remdups (rev (map fst xs)))"
  have d: "distinct ?K" by simp
  have sK: "set ?K = fst ` set xs" by simp
  have K': "rev (remdups (rev (map fst (xs @ [x])))) = (if k \<in> set ?K then ?K else ?K @ [k])"
    by (simp add: x)
  have g: "(\<lambda>k'. (k', the (map_of (rev (xs @ [x])) k')))
         = (\<lambda>k'. (k', ((\<lambda>k. the (map_of (rev xs) k))(k := v)) k'))"
    by (intro ext) (simp add: x)
  have "foldl (\<lambda>target kv. obj_set (fst kv) (snd kv) target) [] (xs @ [x])
      = obj_set k v (map (\<lambda>k. (k, the (map_of (rev xs) k))) ?K)"
    by (simp add: snoc.IH x)
  also have "\<dots> = map (\<lambda>x. (x, ((\<lambda>k. the (map_of (rev xs) k))(k := v)) x)) (if k \<in> set ?K then ?K else ?K @ [k])"
    using d by (rule obj_set_map)
  finally show ?case unfolding K' g .
qed

lemma mergeFormats_by_key:
  "mergeFormats dicts
     = map (\<lambda>k. the (map_of (rev (concat dicts)) k)) (rev (remdups (rev (map fst (concat dicts)))))"
  by (simp add: mergeFormats_def foldl_obj_set comp_def)

lemma awaitAll_fulfilled: "awaitAll order (map Inr ds) = Inr ds"
proof -
  have n: "find (\<lambda>i. i < length (map Inr ds) \<and> isl (map Inr ds ! i)) (order @ [0..<length (map Inr ds)]) = None"
    unfolding find_None_iff by auto
  have m: "map projr (map Inr ds) = ds" by (simp add: comp_def)
  show ?thesis unfolding awaitAll_def n m by simp
qed

lemma awaitAll_first_rejection:
  assumes ord: "ord = order @ [0..<length rs]"
    and k: "k < length ord" "ord ! k < length rs" "rs ! (ord ! k) = Inl e"
    and before: "\<forall>m<k. ord ! m < length rs \<longrightarrow> (\<exists>d. rs ! (ord ! m) = Inr d)"
  shows "awaitAll order rs = Inl e"
proof -
  let ?P = "\<lambda>i. i < length rs \<and> isl (rs ! i)"
  have "?P (ord ! k)" using k by simp
  moreover have "\<forall>m<k. \<not> ?P (ord ! m)"
  proof (intro allI impI)
    fix m assume "m < k"
    with before have "ord ! m < length rs \<longrightarrow> (\<exists>d. rs ! (ord ! m) = Inr d)" by blast
    then show "\<not> ?P (ord ! m)" by auto
  qed
  ultimately have "find ?P ord = Some (ord ! k)"
    unfolding find_Some_iff using k(1) by blast
  then show ?thesis using k(3) by (simp add: awaitAll_def ord)
qed

lemma getInfo_after_player:
  assumes "getBasicInfo E options = (Inr info, ev1)" and "findHtml5player E info = (Inr h, ev2)"
  shows "fst (getInfo E vid options)
     = collectFormats (settleOrder E) (map fst (chooseFuncs E vid options info))"
  using assms by (simp add: getInfo_def Let_def)

text \<open>
  C1, as stated, fails. With the default player clients every device-profile call is
  refused and the base web response holds a usable format: no device format exists, yet
  the base formats are not used and \<open>getInfo\<close> throws. And with the clients \<open>IOS\<close> and
  \<open>WEB\<close>, a validated iOS response without streaming data is chosen over the base web
  response, whose usable format is not used either.
\<close>

theorem getInfo_no_fallback_counterexample:
  "successfulResponses (world (ok_response (Some [web_fmt])) all_forbidden (Some reverse_script, Some reverse_script))
       ''dQw4w9WgXcQ'' defaultInfoOptions = []
   \<and> filter usable (parseFormats (Some (ok_response (Some [web_fmt])))) = [web_fmt]
   \<and> fst (getInfo (world (ok_response (Some [web_fmt])) all_forbidden (Some reverse_script, Some reverse_script))
            ''dQw4w9WgXcQ'' defaultInfoOptions)
       = Inl (Error ''Failed to find any playable formats'')
   \<and> parseFormats (Some (ok_response None)) = []
   \<and> fst (getInfo (world (ok_response (Some [web_fmt])) (ios_answers (ok_response None))
              (Some reverse_script, Some reverse_script)) ''dQw4w9WgXcQ'' (withClients [IOS, WEB]))
       = Inl (Error ''No playable formats found'')"
  by code_simp

text \<open>
  C1, amended. Once the base web response has passed the playability check and the player
  file is known: a device-profile call answers when its client is enabled, its playback
  context (fetched for WEB_EMBEDDED and TV only) is obtained, its request succeeds, its
  response has no playability error, and the video id of the response is the requested one.
  If some call answers, the response of the first that does, in the order WEB_EMBEDDED,
  TV, IOS, ANDROID, alone gives the formats and the base web response is not used. If none
  answers, the base web response gives the formats when \<open>WEB\<close> is among the enabled
  clients, which it is not by default; otherwise \<open>getInfo\<close> throws
  \<open>Failed to find any playable formats\<close>. For the response chosen, deciphering and each
  manifest give a dictionary of formats keyed by URL. When all of them succeed the
  dictionaries are merged key by key, a key keeping the place of its first occurrence and
  the format of its last; \<open>getInfo\<close> returns the merged formats that have both a URL and a
  MIME type, and throws \<open>No playable formats found\<close> when there is none. When some of them
  fail, \<open>getInfo\<close> throws the failure of the one that fails first in time.
\<close>

theorem getInfo_reconciliation:
  fixes E :: "'u env"
  assumes basic: "getBasicInfo E options = (Inr info, ev1)"
    and player: "findHtml5player E info = (Inr h, ev2)"
    and enabled: "enabled = (case playerClients options of
                      None \<Rightarrow> [WEB_EMBEDDED, IOS, ANDROID, TV]
                    | Some cs \<Rightarrow> if cs = [] then [WEB_EMBEDDED, IOS, ANDROID, TV] else cs)"
    and answers: "answers = (\<lambda>c r. c \<in> set enabled
                    \<and> ((c = WEB_EMBEDDED \<or> c = TV) \<longrightarrow> getPlaybackContext E c = Inr ())
                    \<and> playerRequest E c = Inr r \<and> playError (Some r) = None
                    \<and> (\<exists>d. videoDetails r = Some d \<and> videoId d = Some vid))"
    and prio: "prio = [WEB_EMBEDDED, TV, IOS, ANDROID]"
    and src: "(\<exists>i r. i < length prio \<and> answers (prio ! i) r \<and> (\<forall>j<i. \<forall>r'. \<not> answers (prio ! j) r')
                 \<and> source = Some (Some r))
            \<or> ((\<forall>c\<in>set prio. \<forall>r. \<not> answers c r) \<and> WEB \<in> set enabled
                 \<and> source = Some (player_response info))
            \<or> ((\<forall>c\<in>set prio. \<forall>r. \<not> answers c r) \<and> WEB \<notin> set enabled \<and> source = None)"
    and outcomes: "outcomes = (case source of
                      None \<Rightarrow> []
                    | Some pr \<Rightarrow> decipherFormats (platform E) (parseFormats pr) (getFunctions E)
                                # map fst (parseAdditionalManifests E pr))"
    and ord: "ord = settleOrder E @ [0..<length outcomes]"
  shows "(source = None \<longrightarrow>
            fst (getInfo E vid options) = Inl (Error ''Failed to find any playable formats''))
    \<and> (\<forall>dicts fs. source \<noteq> None \<and> outcomes = map Inr dicts
            \<and> fs = filter (\<lambda>f. truthy_str (url f) \<and> truthy_str (mimeType f))
                     (map (\<lambda>k. the (map_of (rev (concat dicts)) k))
                        (rev (remdups (rev (map fst (concat dicts))))))
          \<longrightarrow> fst (getInfo E vid options)
                = (if fs = [] then Inl (Error ''No playable formats found'') else Inr fs))
    \<and> (\<forall>k e. k < length ord \<and> ord ! k < length outcomes \<and> outcomes ! (ord ! k) = Inl e
            \<and> (\<forall>m<k. ord ! m < length outcomes \<longrightarrow> (\<exists>d. outcomes ! (ord ! m) = Inr d))
          \<longrightarrow> fst (getInfo E vid options) = Inl e)"
proof -
  let ?S = "\<lambda>c. if c \<in> set (enabledClients options)
                 then (case fst (fetchPlayer E vid c) of Inl _ \<Rightarrow> [] | Inr v \<Rightarrow> [v]) else []"
  have en: "enabled = enabledClients options"
    unfolding enabled by (simp add: enabledClients_def)
  have ans: "answers c r \<longleftrightarrow> c \<in> set (enabledClients options) \<and> fst (fetchPlayer E vid c) = Inr r" for c r
    unfolding answers en fetchPlayer_iff by simp
  have yes: "?S c = [r]" if "answers c r" for c r
    using that by (simp add: ans)
  have no: "?S c = []" if "\<forall>r. \<not> answers c r" for c
  proof (cases "c \<in> set (enabledClients options)")
    case False
    then show ?thesis by simp
  next
    case True
    with that have "\<forall>r. fst (fetchPlayer E vid c) \<noteq> Inr r" by (simp add: ans)
    then show ?thesis by (cases "fst (fetchPlayer E vid c)") simp_all
  qed
  have split: "successfulResponses E vid options = concat (map ?S prio)"
    unfolding prio by (rule successfulResponses_split)
  have funcs: "map fst (chooseFuncs E vid options info) = outcomes"
    using src
  proof (elim disjE)
    assume "\<exists>i r. i < length prio \<and> answers (prio ! i) r \<and> (\<forall>j<i. \<forall>r'. \<not> answers (prio ! j) r')
                 \<and> source = Some (Some r)"
    then obtain i r where i: "i < length prio" "answers (prio ! i) r"
        "\<forall>j<i. \<forall>r'. \<not> answers (prio ! j) r'" "source = Some (Some r)"
      by blast
    have a: "?S (prio ! i) = [r]" using i(2) by (rule yes)
    have b: "\<forall>j<i. ?S (prio ! j) = []"
    proof (intro allI impI)
      fix j assume "j < i"
      with i(3) have "\<forall>r'. \<not> answers (prio ! j) r'" by blast
      then show "?S (prio ! j) = []" by (rule no)
    qed
    from successful_first [where S = ?S, OF i(1) a b] obtain rest where
      "successfulResponses E vid options = r # rest"
      unfolding split by blast
    then have "chooseFuncs E vid options info = formatFuncs E (Some r)"
      by (simp add: chooseFuncs_def)
    then show ?thesis by (simp add: outcomes i(4) formatFuncs_def)
  next
    assume h: "(\<forall>c\<in>set prio. \<forall>r. \<not> answers c r) \<and> WEB \<in> set enabled
                 \<and> source = Some (player_response info)"
    then have "\<forall>c\<in>set prio. ?S c = []" using no by blast
    then have "successfulResponses E vid options = []"
      unfolding split by simp
    with h have "chooseFuncs E vid options info = formatFuncs E (player_response info)"
      by (simp add: chooseFuncs_def en)
    with h show ?thesis by (simp add: outcomes formatFuncs_def)
  next
    assume h: "(\<forall>c\<in>set prio. \<forall>r. \<not> answers c r) \<and> WEB \<notin> set enabled \<and> source = None"
    then have "\<forall>c\<in>set prio. ?S c = []" using no by blast
    then have "successfulResponses E vid options = []"
      unfolding split by simp
    with h have "chooseFuncs E vid options info = []"
      by (simp add: chooseFuncs_def en)
    with h show ?thesis by (simp add: outcomes)
  qed
  have g: "fst (getInfo E vid options) = collectFormats (settleOrder E) outcomes"
    using getInfo_after_player [OF basic player, of vid] funcs by simp
  have c1: "source = None \<longrightarrow>
            fst (getInfo E vid options) = Inl (Error ''Failed to find any playable formats'')"
    by (simp add: g outcomes collectFormats_def)
  have c2: "\<forall>dicts fs. source \<noteq> None \<and> outcomes = map Inr dicts
            \<and> fs = filter (\<lambda>f. truthy_str (url f) \<and> truthy_str (mimeType f))
                     (map (\<lambda>k. the (map_of (rev (concat dicts)) k))
                        (rev (remdups (rev (map fst (concat dicts))))))
          \<longrightarrow> fst (getInfo E vid options)
                = (if fs = [] then Inl (Error ''No playable formats found'') else Inr fs)"
  proof (intro allI impI)
    fix dicts fs
    assume h: "source \<noteq> None \<and> outcomes = map Inr dicts
            \<and> fs = filter (\<lambda>f. truthy_str (url f) \<and> truthy_str (mimeType f))
                     (map (\<lambda>k. the (map_of (rev (concat dicts)) k))
                        (rev (remdups (rev (map fst (concat dicts))))))"
    then have ne: "outcomes \<noteq> []" by (auto simp: outcomes)
    from h have o: "outcomes = map Inr dicts" by simp
    have u: "usable = (\<lambda>f. truthy_str (url f) \<and> truthy_str (mimeType f))"
      by (intro ext) (simp add: usable_def)
    from h have fs: "fs = filter usable (mergeFormats dicts)"
      unfolding u mergeFormats_by_key by simp
    have "collectFormats (settleOrder E) outcomes
        = (if filter usable (mergeFormats dicts) = [] then Inl (Error ''No playable formats found'')
           else Inr (filter usable (mergeFormats dicts)))"
      using ne unfolding collectFormats_def o awaitAll_fulfilled by (simp add: andThen_def)
    then show "fst (getInfo E vid options)
                = (if fs = [] then Inl (Error ''No playable formats found'') else Inr fs)"
      by (simp add: g fs)
  qed
  have c3: "\<forall>k e. k < length ord \<and> ord ! k < length outcomes \<and> outcomes ! (ord ! k) = Inl e
            \<and> (\<forall>m<k. ord ! m < length outcomes \<longrightarrow> (\<exists>d. outcomes ! (ord ! m) = Inr d))
          \<longrightarrow> fst (getInfo E vid options) = Inl e"
  proof (intro allI impI)
    fix k e
    assume h: "k < length ord \<and> ord ! k < length outcomes \<and> outcomes ! (ord ! k) = Inl e
            \<and> (\<forall>m<k. ord ! m < length outcomes \<longrightarrow> (\<exists>d. outcomes ! (ord ! m) = Inr d))"
    then have k: "k < length ord" "ord ! k < length outcomes" "outcomes ! (ord ! k) = Inl e"
      and b: "\<forall>m<k. ord ! m < length outcomes \<longrightarrow> (\<exists>d. outcomes ! (ord ! m) = Inr d)"
      by simp_all
    from k(2) have ne: "outcomes \<noteq> []" by auto
    from awaitAll_first_rejection [OF ord k b] have "awaitAll (settleOrder E) outcomes = Inl e" .
    with ne show "fst (getInfo E vid options) = Inl e"
      by (simp add: g collectFormats_def andThen_def)
  qed
  from c1 c2 c3 show ?thesis by (intro conjI)
qed

theorem getInfo_reconciliation_witness:
  "fst (getInfo (world (ok_response (Some [web_fmt])) tv_and_ios_answer (Some reverse_script, Some reverse_script))
          ''dQw4w9WgXcQ'' (withClients [IOS, TV, WEB]))
     = Inr [tv_fmt_again]
   \<and> fst (getInfo (manifest_first (world (ok_response (Some [web_fmt]))
            (ios_answers (with_dash (ok_response (Some [throttled_fmt]))))
            (Some reverse_script, Some throwing_script)))
          ''dQw4w9WgXcQ'' (withClients [IOS]))
     = Inl (StatusCodeError 404)
   \<and> fst (getInfo (world (ok_response (Some [web_fmt]))
            (ios_answers (with_dash (ok_response (Some [throttled_fmt]))))
            (Some reverse_script, Some throwing_script))
          ''dQw4w9WgXcQ'' (withClients [IOS]))
     = Inl (ScriptError ''TypeError: a.split is not a function'')
   \<and> fst (getInfo (world (ok_response (Some [web_fmt])) all_forbidden
          (Some reverse_script, Some reverse_script)) ''dQw4w9WgXcQ'' (withClients [IOS, WEB]))
     = Inr [web_fmt]"
proof -
  let ?vid = "''dQw4w9WgXcQ''"
  let ?info = "\<lparr>player_response = Some (ok_response (Some [web_fmt])), html5player = Some ''/s/player/abc/base.js''\<rparr>"
  let ?prio = "[WEB_EMBEDDED, TV, IOS, ANDROID]"
  let ?E1 = "world (ok_response (Some [web_fmt])) tv_and_ios_answer (Some reverse_script, Some reverse_script)"
  let ?o1 = "withClients [IOS, TV, WEB]"
  let ?r1 = "ok_response (Some [tv_fmt, no_mime_fmt, tv_fmt_again])"
  let ?d1 = "[(''https://example.com/videoplayback?itag=137'', tv_fmt_again),
              (''https://example.com/videoplayback?itag=251'', no_mime_fmt)]"
  let ?ans1 = "\<lambda>c r. c \<in> set [IOS, TV, WEB]
                    \<and> ((c = WEB_EMBEDDED \<or> c = TV) \<longrightarrow> getPlaybackContext ?E1 c = Inr ())
                    \<and> playerRequest ?E1 c = Inr r \<and> playError (Some r) = None
                    \<and> (\<exists>d. videoDetails r = Some d \<and> videoId d = Some ?vid)"
  have b1: "getBasicInfo ?E1 ?o1 = (Inr ?info, [FetchWatchPage])" by code_simp
  have p1: "findHtml5player ?E1 ?info = (Inr ''https://www.youtube.com/s/player/abc/base.js'', [])"
    by code_simp
  have e1: "[IOS, TV, WEB] = (case playerClients ?o1 of
                      None \<Rightarrow> [WEB_EMBEDDED, IOS, ANDROID, TV]
                    | Some cs \<Rightarrow> if cs = [] then [WEB_EMBEDDED, IOS, ANDROID, TV] else cs)"
    by (simp add: withClients_def)
  have pe1: "playError (Some ?r1) = None" by code_simp
  have y1: "?ans1 TV ?r1"
    using pe1 by (simp add: world_def tv_and_ios_answer_def ok_response_def)
  have n1: "\<forall>r'. \<not> ?ans1 WEB_EMBEDDED r'" by simp
  have s1: "(\<exists>i r. i < length ?prio \<and> ?ans1 (?prio ! i) r \<and> (\<forall>j<i. \<forall>r'. \<not> ?ans1 (?prio ! j) r')
                 \<and> Some (Some ?r1) = Some (Some r))
            \<or> ((\<forall>c\<in>set ?prio. \<forall>r. \<not> ?ans1 c r) \<and> WEB \<in> set [IOS, TV, WEB]
                 \<and> Some (Some ?r1) = Some (player_response ?info))
            \<or> ((\<forall>c\<in>set ?prio. \<forall>r. \<not> ?ans1 c r) \<and> WEB \<notin> set [IOS, TV, WEB] \<and> Some (Some ?r1) = None)"
  proof (rule disjI1)
    have a: "(1::nat) < length ?prio" by simp
    have c: "?ans1 (?prio ! 1) ?r1" using y1 by simp
    have d: "\<forall>j<1. \<forall>r'. \<not> ?ans1 (?prio ! j) r'" using n1 by simp
    have "(1::nat) < length ?prio \<and> ?ans1 (?prio ! 1) ?r1 \<and> (\<forall>j<1. \<forall>r'. \<not> ?ans1 (?prio ! j) r')
            \<and> Some (Some ?r1) = Some (Some ?r1)"
      using a c d by blast
    then show "\<exists>i r. i < length ?prio \<and> ?ans1 (?prio ! i) r \<and> (\<forall>j<i. \<forall>r'. \<not> ?ans1 (?prio ! j) r')
                 \<and> Some (Some ?r1) = Some (Some r)"
      by (intro exI)
  qed
  have o1: "[Inr ?d1] = (case Some (Some ?r1) of
                      None \<Rightarrow> []
                    | Some pr \<Rightarrow> decipherFormats (platform ?E1) (parseFormats pr) (getFunctions ?E1)
                                # map fst (parseAdditionalManifests ?E1 pr))"
    by code_simp
  have f1: "[tv_fmt_again] = filter (\<lambda>f. truthy_str (url f) \<and> truthy_str (mimeType f))
                     (map (\<lambda>k. the (map_of (rev (concat [?d1])) k))
                        (rev (remdups (rev (map fst (concat [?d1]))))))"
    by code_simp
  note t1 = getInfo_reconciliation [where answers = ?ans1 and source = "Some (Some ?r1)"
      and vid = ?vid, OF b1 p1 e1 refl refl s1 o1 refl]
  have m1: "[Inr ?d1] = map Inr [?d1]" by simp
  have "Some (Some ?r1) \<noteq> None" by simp
  with m1 f1 have h1: "Some (Some ?r1) \<noteq> None \<and> [Inr ?d1] = map Inr [?d1]
      \<and> [tv_fmt_again] = filter (\<lambda>f. truthy_str (url f) \<and> truthy_str (mimeType f))
                     (map (\<lambda>k. the (map_of (rev (concat [?d1])) k))
                        (rev (remdups (rev (map fst (concat [?d1]))))))"
    by (intro conjI)
  from t1 [THEN conjunct2, THEN conjunct1, THEN spec, of "[?d1]", THEN spec, of "[tv_fmt_again]",
      THEN mp, OF h1]
  have w1: "fst (getInfo ?E1 ?vid ?o1) = Inr [tv_fmt_again]" by simp
  let ?E2 = "manifest_first (world (ok_response (Some [web_fmt]))
            (ios_answers (with_dash (ok_response (Some [throttled_fmt]))))
            (Some reverse_script, Some throwing_script))"
  let ?o2 = "withClients [IOS]"
  let ?r2 = "with_dash (ok_response (Some [throttled_fmt]))"
  let ?ans2 = "\<lambda>c r. c \<in> set [IOS]
                    \<and> ((c = WEB_EMBEDDED \<or> c = TV) \<longrightarrow> getPlaybackContext ?E2 c = Inr ())
                    \<and> playerRequest ?E2 c = Inr r \<and> playError (Some r) = None
                    \<and> (\<exists>d. videoDetails r = Some d \<and> videoId d = Some ?vid)"
  let ?out2 = "[Inl (ScriptError ''TypeError: a.split is not a function''), Inl (StatusCodeError 404)]
                 :: (error + format_dict) list"
  have b2: "getBasicInfo ?E2 ?o2 = (Inr ?info, [FetchWatchPage])" by code_simp
  have p2: "findHtml5player ?E2 ?info = (Inr ''https://www.youtube.com/s/player/abc/base.js'', [])"
    by code_simp
  have e2: "[IOS] = (case playerClients ?o2 of
                      None \<Rightarrow> [WEB_EMBEDDED, IOS, ANDROID, TV]
                    | Some cs \<Rightarrow> if cs = [] then [WEB_EMBEDDED, IOS, ANDROID, TV] else cs)"
    by (simp add: withClients_def)
  have pe2: "playError (Some ?r2) = None" by code_simp
  have y2: "?ans2 IOS ?r2"
    using pe2 by (simp add: world_def manifest_first_def ios_answers_def ok_response_def with_dash_def)
  have n2: "\<forall>r'. \<not> ?ans2 WEB_EMBEDDED r'" "\<forall>r'. \<not> ?ans2 TV r'" by simp_all
  have s2: "(\<exists>i r. i < length ?prio \<and> ?ans2 (?prio ! i) r \<and> (\<forall>j<i. \<forall>r'. \<not> ?ans2 (?prio ! j) r')
                 \<and> Some (Some ?r2) = Some (Some r))
            \<or> ((\<forall>c\<in>set ?prio. \<forall>r. \<not> ?ans2 c r) \<and> WEB \<in> set [IOS]
                 \<and> Some (Some ?r2) = Some (player_response ?info))
            \<or> ((\<forall>c\<in>set ?prio. \<forall>r. \<not> ?ans2 c r) \<and> WEB \<notin> set [IOS] \<and> Some (Some ?r2) = None)"
  proof (rule disjI1)
    have a: "(2::nat) < length ?prio" by simp
    have c: "?ans2 (?prio ! 2) ?r2" using y2 by simp
    have d: "\<forall>j<2. \<forall>r'. \<not> ?ans2 (?prio ! j) r'" using n2 by (simp add: less_2_cases_iff)
    have "(2::nat) < length ?prio \<and> ?ans2 (?prio ! 2) ?r2 \<and> (\<forall>j<2. \<forall>r'. \<not> ?ans2 (?prio ! j) r')
            \<and> Some (Some ?r2) = Some (Some ?r2)"
      using a c d by blast
    then show "\<exists>i r. i < length ?prio \<and> ?ans2 (?prio ! i) r \<and> (\<forall>j<i. \<forall>r'. \<not> ?ans2 (?prio ! j) r')
                 \<and> Some (Some ?r2) = Some (Some r)"
      by (intro exI)
  qed
  have o2: "?out2 = (case Some (Some ?r2) of
                      None \<Rightarrow> []
                    | Some pr \<Rightarrow> decipherFormats (platform ?E2) (parseFormats pr) (getFunctions ?E2)
                                # map fst (parseAdditionalManifests ?E2 pr))"
    by code_simp
  have d2: "[1, 0, 0, 1] = settleOrder ?E2 @ [0..<length ?out2]"
    by (simp add: manifest_first_def upt_conv_Cons)
  note t2 = getInfo_reconciliation [where answers = ?ans2 and source = "Some (Some ?r2)"
      and vid = ?vid, OF b2 p2 e2 refl refl s2 o2 d2]
  have h2: "0 < length [1, 0, 0, 1::nat] \<and> [1, 0, 0, 1] ! 0 < length ?out2
      \<and> ?out2 ! ([1, 0, 0, 1] ! 0) = Inl (StatusCodeError 404)
      \<and> (\<forall>m<0. [1, 0, 0, 1] ! m < length ?out2 \<longrightarrow> (\<exists>d. ?out2 ! ([1, 0, 0, 1] ! m) = Inr d))"
    by simp
  from t2 [THEN conjunct2, THEN conjunct2, THEN spec, of 0, THEN spec, of "StatusCodeError 404",
      THEN mp, OF h2]
  have w2: "fst (getInfo ?E2 ?vid ?o2) = Inl (StatusCodeError 404)" .
  have w3: "fst (getInfo (world (ok_response (Some [web_fmt]))
            (ios_answers (with_dash (ok_response (Some [throttled_fmt]))))
            (Some reverse_script, Some throwing_script)) ?vid (withClients [IOS]))
     = Inl (ScriptError ''TypeError: a.split is not a function'')"
    by code_simp
  have w4: "fst (getInfo (world (ok_response (Some [web_fmt])) all_forbidden
          (Some reverse_script, Some reverse_script)) ?vid (withClients [IOS, WEB]))
     = Inr [web_fmt]"
    by code_simp
  from w1 w2 w3 w4 show ?thesis by (intro conjI)
qed

end
